theory Spec2Isabelle
  imports Main
begin

section \<open>Storage: reference-counted blocks and handles\<close>

text \<open>
  The library (\<^verbatim>\<open>Kuzco.hpp\<close>) keeps every node of a state tree in its own
  \<^verbatim>\<open>std::shared_ptr\<close> block. A block is identified by its address. The store maps
  addresses to blocks; a block carries the value and the use count of the shared pointer.
  Addresses are handed out in increasing order and are never reused. Destruction is not
  followed: a block whose use count drops to zero stays in the store and the handles inside
  it are not given up. The model agrees with \<^verbatim>\<open>std::shared_ptr\<close> as long as every block
  that loses an owner has another one; what is stated about use counts after a handle was
  given up is stated under that hypothesis. Allocation failure is outside the model.

  The header defines the class templates \<^verbatim>\<open>NewObject<T>\<close>, \<^verbatim>\<open>Member<T>\<close> and
  \<^verbatim>\<open>RootObject<T>\<close> and only declares the functions of their base classes in
  \<^verbatim>\<open>kuzco::impl\<close>. The templates are translated as they are written; the declared
  functions that they call are translated from the specification, each marked as such.
  The move operations (\<^verbatim>\<open>takeData\<close>, \<^verbatim>\<open>checkedDetachTake\<close>) are declared only. They
  run inside the move constructor and the move assignment of the user type, which enter
  \<^verbatim>\<open>operator=(U&&)\<close> as parameters. The write scope of \<^verbatim>\<open>NewObject\<close> plays no part in
  the statements below and is left out.
\<close>

type_synonym addr = nat

text \<open>\<^verbatim>\<open>struct Data { void* qdata = nullptr; Payload payload; }\<close>; \<open>None\<close> is the null pointer.\<close>

record Data =
  qdata :: "addr option"
  payload :: "addr option"

text \<open>
  The user type \<open>T\<close> of a \<^verbatim>\<open>Member<T>\<close>: plain data together with the nested
  \<^verbatim>\<open>Member\<close> fields of the struct, in declaration order. A \<^verbatim>\<open>Member\<close> (and a
  \<^verbatim>\<open>NewObject\<close>) has the single field \<^verbatim>\<open>m_data\<close>, so it is represented by
  its \<open>Data\<close>.
\<close>

datatype 'a obj = Obj (plain: 'a) (kids: "Data list")

record 'a block =
  val :: "'a obj"
  use_count :: nat

datatype error = NullDeref | OutOfFuel | TypeMismatch | WouldBlock | NotInTransaction

text \<open>
  The state seen by one thread working with one \<^verbatim>\<open>RootObject\<close>: the store, the
  thread's transaction-depth counter and the fields of \<^verbatim>\<open>impl::RootObject\<close>.
\<close>

record 'a world =
  blocks :: "addr \<Rightarrow> 'a block option"
  next_addr :: addr
  transactions :: nat
  m_root :: Data
  m_openEdits :: "Data list"
  m_detachedRoot :: "addr option"
  m_transactionMutex :: bool

definition null_Data :: Data where
  "null_Data = \<lparr>qdata = None, payload = None\<rparr>"

definition empty_world :: "'a world" where
  "empty_world = \<lparr>blocks = (\<lambda>a. None), next_addr = 0, transactions = 0,
     m_root = null_Data, m_openEdits = [], m_detachedRoot = None,
     m_transactionMutex = False\<rparr>"

text \<open>Copying a \<^verbatim>\<open>shared_ptr\<close> increments the use count of its block.\<close>

definition share :: "addr option \<Rightarrow> 'a world \<Rightarrow> 'a world" where
  "share p w =
     (case p of None \<Rightarrow> w
      | Some a \<Rightarrow>
          (case blocks w a of None \<Rightarrow> w
           | Some b \<Rightarrow> w\<lparr>blocks := (blocks w)(a \<mapsto> b\<lparr>use_count := Suc (use_count b)\<rparr>)\<rparr>))"

text \<open>
  Destroying or overwriting a \<^verbatim>\<open>shared_ptr\<close> decrements the use count of its block.
  What \<^verbatim>\<open>std::shared_ptr\<close> does when the count reaches zero (it destroys the value, which
  gives up the handles of the nested Members) is not followed.
\<close>

definition release :: "addr option \<Rightarrow> 'a world \<Rightarrow> 'a world" where
  "release p w =
     (case p of None \<Rightarrow> w
      | Some a \<Rightarrow>
          (case blocks w a of None \<Rightarrow> w
           | Some b \<Rightarrow> w\<lparr>blocks := (blocks w)(a \<mapsto> b\<lparr>use_count := use_count b - 1\<rparr>)\<rparr>))"

text \<open>
  \<^verbatim>\<open>Data::construct<T>(args)\<close>: \<^verbatim>\<open>make_shared<T>\<close> allocates a block holding the
  constructed value (\<open>v\<close>), and \<^verbatim>\<open>qdata\<close> is set to the block's address.
\<close>

definition construct :: "'a obj \<Rightarrow> 'a world \<Rightarrow> Data \<times> 'a world" where
  "construct v w =
     (let a = next_addr w in
      (\<lparr>qdata = Some a, payload = Some a\<rparr>,
       w\<lparr>blocks := (blocks w)(a \<mapsto> \<lparr>val = v, use_count = 1\<rparr>), next_addr := Suc a\<rparr>))"

text \<open>
  \<^verbatim>\<open>*get()\<close> on a const \<^verbatim>\<open>Member\<close>: the value behind \<^verbatim>\<open>m_data.qdata\<close>.
  Dereferencing a null or wild pointer is undefined behaviour, here an error.
\<close>

definition deref :: "Data \<Rightarrow> 'a world \<Rightarrow> error + 'a obj" where
  "deref d w =
     (case qdata d of None \<Rightarrow> Inl NullDeref
      | Some a \<Rightarrow> (case blocks w a of None \<Rightarrow> Inl NullDeref | Some b \<Rightarrow> Inr (val b)))"

text \<open>The value a reader sees behind a shared pointer.\<close>

definition load :: "addr option \<Rightarrow> 'a world \<Rightarrow> error + 'a obj" where
  "load p w =
     (case p of None \<Rightarrow> Inl NullDeref
      | Some a \<Rightarrow> (case blocks w a of None \<Rightarrow> Inl NullDeref | Some b \<Rightarrow> Inr (val b)))"

section \<open>The parts of \<^verbatim>\<open>impl::Member\<close> and \<^verbatim>\<open>impl::RootObject\<close> that the header only declares\<close>

text \<open>
  Modelled from the spec: \<^verbatim>\<open>impl::Member::deep()\<close> is declared in the header and
  defined elsewhere. Section 5: the decision is governed by a per-thread
  transaction-depth counter; Members copied while it is zero deep-copy.
\<close>

definition deep :: "'a world \<Rightarrow> bool" where
  "deep w = (transactions w = 0)"

text \<open>
  Modelled from the spec: \<^verbatim>\<open>impl::RootObject::isOpenEdit\<close> is declared only.
  Section 4.4: the registry is an ordered collection of Storage Handle identities, and a
  Node's detachment check is membership of its block address in this collection.
\<close>

definition isOpenEdit :: "Data \<Rightarrow> 'a world \<Rightarrow> bool" where
  "isOpenEdit d w = list_ex (\<lambda>e. qdata e = qdata d) (m_openEdits w)"

text \<open>
  Modelled from the spec: \<^verbatim>\<open>impl::RootObject::openEdit\<close> is declared only. It
  inserts the handle into \<^verbatim>\<open>std::vector<Data> m_openEdits\<close>; the stored copy is one
  more owner of the block.
\<close>

definition openEdit :: "Data \<Rightarrow> 'a world \<Rightarrow> 'a world" where
  "openEdit d w = (share (payload d) w)\<lparr>m_openEdits := m_openEdits w @ [d]\<rparr>"

text \<open>
  Modelled from the spec: \<^verbatim>\<open>impl::Member::detached()\<close> is declared only. Header
  comment: when working on new objects we are detached, inside a transaction a search is
  performed. Section 4.3: outside of any transaction the deep rule governs, inside the
  Node asks whether its block address is in the open-edits registry.
\<close>

definition detached :: "Data \<Rightarrow> 'a world \<Rightarrow> bool" where
  "detached m w = (deep w \<or> isOpenEdit m w)"

text \<open>
  Modelled from the spec: \<^verbatim>\<open>impl::Member::detachWith(Data)\<close> is declared only.
  Section 4.3: the new handle replaces the old aliasing handle, whose reference count is
  simply decremented, and the new handle is registered with the open-edits registry.
  The result is the Member's new \<^verbatim>\<open>m_data\<close>.
\<close>

definition detachWith :: "Data \<Rightarrow> Data \<Rightarrow> 'a world \<Rightarrow> Data \<times> 'a world" where
  "detachWith data m w = (data, openEdit data (release (payload m) w))"

section \<open>\<^verbatim>\<open>Member<T>\<close>\<close>

text \<open>
  \<^verbatim>\<open>Member(const Member& other)\<close> and the copy constructor of \<open>T\<close> that it calls.
  The copy constructor of a struct copies field by field, so every nested Member is copied
  by \<^verbatim>\<open>Member(const Member&)\<close> again. The recursion follows the nesting of the tree;
  the first argument bounds its depth, and one unit is used where the Member's copy
  constructor enters the copy constructor of \<open>T\<close>.
\<close>

fun Member_copy_ctor :: "nat \<Rightarrow> Data \<Rightarrow> 'a world \<Rightarrow> error + (Data \<times> 'a world)"
  and T_copy_ctor :: "nat \<Rightarrow> 'a obj \<Rightarrow> 'a world \<Rightarrow> error + ('a obj \<times> 'a world)"
  and copy_kids :: "nat \<Rightarrow> Data list \<Rightarrow> 'a world \<Rightarrow> error + (Data list \<times> 'a world)"
where
  "Member_copy_ctor 0 other w =
     (if deep w then Inl OutOfFuel
      else Inr (other, share (payload other) w))"
| "Member_copy_ctor (Suc n) other w =
     (if deep w then
        (case deref other w of Inl e \<Rightarrow> Inl e
         | Inr v \<Rightarrow>
             (case T_copy_ctor n v w of Inl e \<Rightarrow> Inl e
              | Inr (v', w') \<Rightarrow> Inr (construct v' w')))
      else Inr (other, share (payload other) w))"
| "T_copy_ctor n v w =
     (case copy_kids n (kids v) w of Inl e \<Rightarrow> Inl e
      | Inr (ks, w') \<Rightarrow> Inr (Obj (plain v) ks, w'))"
| "copy_kids n [] w = Inr ([], w)"
| "copy_kids n (k # ks) w =
     (case Member_copy_ctor n k w of Inl e \<Rightarrow> Inl e
      | Inr (k', w') \<Rightarrow>
          (case copy_kids n ks w' of Inl e \<Rightarrow> Inl e
           | Inr (ks', w'') \<Rightarrow> Inr (k' # ks', w'')))"

text \<open>\<^verbatim>\<open>Member(Args&&... args)\<close>: \<open>v\<close> is the value \<open>T(args...)\<close>.\<close>

definition Member_ctor :: "'a obj \<Rightarrow> 'a world \<Rightarrow> Data \<times> 'a world" where
  "Member_ctor v w = construct v w"

text \<open>
  \<^verbatim>\<open>T* get()\<close>: returns the pointer, the Member's \<^verbatim>\<open>m_data\<close> afterwards and the
  new state. \<^verbatim>\<open>qget()\<close> is \<^verbatim>\<open>m_data.qdata\<close>.
\<close>

definition Member_get :: "nat \<Rightarrow> Data \<Rightarrow> 'a world \<Rightarrow> error + (addr option \<times> Data \<times> 'a world)" where
  "Member_get n m w =
     (if \<not> detached m w then
        (case deref m w of Inl e \<Rightarrow> Inl e
         | Inr v \<Rightarrow>
             (case T_copy_ctor n v w of Inl e \<Rightarrow> Inl e
              | Inr (v', w1) \<Rightarrow>
                  (let (d, w2) = construct v' w1;
                       (m', w3) = detachWith d m w2
                   in Inr (qdata m', m', w3))))
      else Inr (qdata m, m, w))"

text \<open>
  Access to the nested Member in field \<open>i\<close> of the struct in block \<open>a\<close>, and the
  write-back of that Member's \<^verbatim>\<open>m_data\<close> after an operation changed it in place.
\<close>

definition field :: "addr \<Rightarrow> nat \<Rightarrow> 'a world \<Rightarrow> error + Data" where
  "field a i w =
     (case blocks w a of None \<Rightarrow> Inl NullDeref
      | Some b \<Rightarrow> if i < length (kids (val b)) then Inr (kids (val b) ! i) else Inl TypeMismatch)"

definition put_field :: "addr \<Rightarrow> nat \<Rightarrow> Data \<Rightarrow> 'a world \<Rightarrow> error + 'a world" where
  "put_field a i d w =
     (case blocks w a of None \<Rightarrow> Inl NullDeref
      | Some b \<Rightarrow>
          if i < length (kids (val b))
          then Inr (w\<lparr>blocks := (blocks w)(a \<mapsto> b\<lparr>val := Obj (plain (val b)) ((kids (val b))[i := d])\<rparr>)\<rparr>)
          else Inl TypeMismatch)"

text \<open>Writing the plain data of the value behind a mutable pointer (\<^verbatim>\<open>*p = x\<close>).\<close>

definition put_plain :: "addr \<Rightarrow> 'a \<Rightarrow> 'a world \<Rightarrow> error + 'a world" where
  "put_plain a x w =
     (case blocks w a of None \<Rightarrow> Inl NullDeref
      | Some b \<Rightarrow> Inr (w\<lparr>blocks := (blocks w)(a \<mapsto> b\<lparr>val := Obj x (kids (val b))\<rparr>)\<rparr>))"

text \<open>
  The right-hand side of an assignment to \<open>T\<close> is a reference: either to the value in a
  block (\<^verbatim>\<open>*other.get()\<close>), read field by field while the assignment runs, or to a
  value that lives outside the store (the argument \<^verbatim>\<open>u\<close> of \<^verbatim>\<open>operator=(U&&)\<close>).
\<close>

datatype 'a source = InBlock addr | Temp "'a obj"

definition read_source :: "'a source \<Rightarrow> 'a world \<Rightarrow> error + 'a obj" where
  "read_source s w =
     (case s of Temp v \<Rightarrow> Inr v
      | InBlock a \<Rightarrow> (case blocks w a of None \<Rightarrow> Inl NullDeref | Some b \<Rightarrow> Inr (val b)))"

definition source_field :: "'a source \<Rightarrow> nat \<Rightarrow> 'a world \<Rightarrow> error + Data" where
  "source_field s i w =
     (case read_source s w of Inl e \<Rightarrow> Inl e
      | Inr v \<Rightarrow> if i < length (kids v) then Inr (kids v ! i) else Inl TypeMismatch)"

text \<open>
  \<^verbatim>\<open>Member& operator=(const Member& other)\<close> and the copy assignment of \<open>T\<close> that
  it calls on the detached path (\<^verbatim>\<open>*qget() = *other.get()\<close>). The assignment of a
  struct assigns field by field: the plain data, then every nested Member by
  \<^verbatim>\<open>Member::operator=\<close> again. \<open>assign_kids n a s i c\<close> assigns the \<open>c\<close> nested
  Members from index \<open>i\<close> on. One unit of the depth bound is used where the Member's
  assignment enters the assignment of \<open>T\<close>.
\<close>

fun Member_assign :: "nat \<Rightarrow> Data \<Rightarrow> Data \<Rightarrow> 'a world \<Rightarrow> error + (Data \<times> 'a world)"
  and T_assign :: "nat \<Rightarrow> addr \<Rightarrow> 'a source \<Rightarrow> 'a world \<Rightarrow> error + 'a world"
  and assign_kids :: "nat \<Rightarrow> addr \<Rightarrow> 'a source \<Rightarrow> nat \<Rightarrow> nat \<Rightarrow> 'a world \<Rightarrow> error + 'a world"
where
  "Member_assign 0 m other w =
     (if detached m w then Inl OutOfFuel
      else
        (case deref other w of Inl e \<Rightarrow> Inl e
         | Inr v \<Rightarrow>
             (case T_copy_ctor 0 v w of Inl e \<Rightarrow> Inl e
              | Inr (v', w1) \<Rightarrow> (let (d, w2) = construct v' w1 in Inr (detachWith d m w2)))))"
| "Member_assign (Suc n) m other w =
     (if detached m w then
        (case qdata m of None \<Rightarrow> Inl NullDeref
         | Some a \<Rightarrow>
             (case qdata other of None \<Rightarrow> Inl NullDeref
              | Some s \<Rightarrow>
                  (case T_assign n a (InBlock s) w of Inl e \<Rightarrow> Inl e
                   | Inr w' \<Rightarrow> Inr (m, w'))))
      else
        (case deref other w of Inl e \<Rightarrow> Inl e
         | Inr v \<Rightarrow>
             (case T_copy_ctor (Suc n) v w of Inl e \<Rightarrow> Inl e
              | Inr (v', w1) \<Rightarrow> (let (d, w2) = construct v' w1 in Inr (detachWith d m w2)))))"
| "T_assign n a s w =
     (case read_source s w of Inl e \<Rightarrow> Inl e
      | Inr v \<Rightarrow>
          (case blocks w a of None \<Rightarrow> Inl NullDeref
           | Some b \<Rightarrow>
               if length (kids (val b)) \<noteq> length (kids v) then Inl TypeMismatch
               else
                 (case put_plain a (plain v) w of Inl e \<Rightarrow> Inl e
                  | Inr w1 \<Rightarrow> assign_kids n a s 0 (length (kids v)) w1)))"
| "assign_kids n a s i 0 w = Inr w"
| "assign_kids n a s i (Suc c) w =
     (case field a i w of Inl e \<Rightarrow> Inl e
      | Inr m \<Rightarrow>
          (case source_field s i w of Inl e \<Rightarrow> Inl e
           | Inr other \<Rightarrow>
               (case Member_assign n m other w of Inl e \<Rightarrow> Inl e
                | Inr (m', w') \<Rightarrow>
                    (case put_field a i m' w' of Inl e \<Rightarrow> Inl e
                     | Inr w'' \<Rightarrow> assign_kids n a s (Suc i) c w''))))"

text \<open>
  \<^verbatim>\<open>template <typename U> Member& operator=(U&& u)\<close>, enabled for every \<open>U\<close> that
  is assignable to \<open>T\<close>. The detached path runs \<^verbatim>\<open>*qget() = std::forward<U>(u)\<close>,
  the assignment of \<open>T\<close> from \<open>u\<close>, on the value in the Member's block; the other path
  runs \<^verbatim>\<open>detachWith(construct<T>(std::forward<U>(u)))\<close>, the constructor of \<open>T\<close> from
  \<open>u\<close>. Both belong to the user type and depend on \<open>U\<close> (copy, move or conversion), so
  they are the parameters \<open>assign_u\<close> (given the address of the value assigned to) and
  \<open>construct_u\<close> (giving the constructed value).
\<close>

definition Member_assign_value ::
  "(addr \<Rightarrow> 'a world \<Rightarrow> error + 'a world) \<Rightarrow> ('a world \<Rightarrow> error + ('a obj \<times> 'a world))
     \<Rightarrow> Data \<Rightarrow> 'a world \<Rightarrow> error + (Data \<times> 'a world)" where
  "Member_assign_value assign_u construct_u m w =
     (if detached m w then
        (case qdata m of None \<Rightarrow> Inl NullDeref
         | Some a \<Rightarrow>
             (case assign_u a w of Inl e \<Rightarrow> Inl e
              | Inr w' \<Rightarrow> Inr (m, w')))
      else
        (case construct_u w of Inl e \<Rightarrow> Inl e
         | Inr (v', w1) \<Rightarrow> (let (d, w2) = construct v' w1 in Inr (detachWith d m w2))))"

text \<open>
  The operator for an argument of type \<open>T\<close> passed by reference (\<open>U = const T&\<close> or
  \<open>T&\<close>): the assignment of \<open>T\<close> is its copy assignment from \<open>u\<close> and the
  constructor is its copy constructor.
\<close>

definition Member_assign_lvalue :: "nat \<Rightarrow> Data \<Rightarrow> 'a obj \<Rightarrow> 'a world \<Rightarrow> error + (Data \<times> 'a world)" where
  "Member_assign_lvalue n m u w =
     Member_assign_value (\<lambda>a. T_assign n a (Temp u)) (T_copy_ctor n u) m w"

text \<open>
  The operator for a type \<open>T\<close> without nested Members and any argument \<open>u\<close> assignable
  to it: \<open>x\<close> is the plain data that \<open>T\<close> takes from \<open>u\<close>, by assignment and by
  construction alike.
\<close>

definition Member_assign_plain :: "Data \<Rightarrow> 'a \<Rightarrow> 'a world \<Rightarrow> error + (Data \<times> 'a world)" where
  "Member_assign_plain m x w =
     Member_assign_value (\<lambda>a. put_plain a x) (\<lambda>w. Inr (Obj x [], w)) m w"

text \<open>\<^verbatim>\<open>const T* get() const\<close> and \<^verbatim>\<open>payload()\<close> (a copy of the shared pointer).\<close>

definition Member_get_const :: "Data \<Rightarrow> addr option" where
  "Member_get_const m = qdata m"

definition Member_payload :: "Data \<Rightarrow> 'a world \<Rightarrow> addr option \<times> 'a world" where
  "Member_payload m w = (payload m, share (payload m) w)"

section \<open>\<^verbatim>\<open>NewObject<T>\<close> and \<^verbatim>\<open>RootObject<T>\<close>\<close>

text \<open>
  \<^verbatim>\<open>NewObject(Args&&... args)\<close> calls \<^verbatim>\<open>setData(Data::construct<T>(args...))\<close>.
  Modelled from the spec: \<^verbatim>\<open>impl::NewObject::setData\<close> is declared only; a Fresh Value
  owns exactly the one Storage Handle it is given.
\<close>

definition NewObject_ctor :: "'a obj \<Rightarrow> 'a world \<Rightarrow> Data \<times> 'a world" where
  "NewObject_ctor v w = construct v w"

text \<open>
  Modelled from the spec: the constructor \<^verbatim>\<open>impl::RootObject(NewObject&&)\<close> is
  declared only. Section 3: the Fresh Value becomes the initial committed snapshot and the
  initial root Node, both referencing the same block. The handle moves into
  \<^verbatim>\<open>m_root\<close>; the snapshot is one more owner.
\<close>

definition RootObject_ctor :: "Data \<Rightarrow> 'a world \<Rightarrow> 'a world" where
  "RootObject_ctor obj w =
     (share (payload obj) w)\<lparr>m_root := obj, m_openEdits := [],
        m_detachedRoot := payload obj, m_transactionMutex := False\<rparr>"

text \<open>
  Modelled from the spec: \<^verbatim>\<open>impl::RootObject::beginTransaction()\<close> is declared only.
  Section 4.4: it acquires the lock (blocking) and increments the calling thread's
  transaction-depth counter. In this sequential model a lock that is already held would
  block for ever, which is the error \<open>WouldBlock\<close>.
\<close>

definition impl_beginTransaction :: "'a world \<Rightarrow> error + 'a world" where
  "impl_beginTransaction w =
     (if m_transactionMutex w then Inl WouldBlock
      else Inr (w\<lparr>m_transactionMutex := True, transactions := Suc (transactions w)\<rparr>))"

text \<open>\<^verbatim>\<open>T* RootObject<T>::beginTransaction()\<close>; the result is the returned pointer.\<close>

definition beginTransaction :: "nat \<Rightarrow> 'a world \<Rightarrow> error + (addr option \<times> 'a world)" where
  "beginTransaction n w =
     (case impl_beginTransaction w of Inl e \<Rightarrow> Inl e
      | Inr w0 \<Rightarrow>
          (case deref (m_root w0) w0 of Inl e \<Rightarrow> Inl e
           | Inr v \<Rightarrow>
               (case T_copy_ctor n v w0 of Inl e \<Rightarrow> Inl e
                | Inr (v', w1) \<Rightarrow>
                    (let (d, w2) = construct v' w1;
                         (m', w3) = detachWith d (m_root w2) w2
                     in Inr (qdata m', w3\<lparr>m_root := m'\<rparr>)))))"

text \<open>
  Modelled from the spec: \<^verbatim>\<open>impl::RootObject::endTransaction()\<close> is declared only.
  Section 4.4: it replaces the committed snapshot with a handle that aliases the root
  Node's Storage Handle, clears the open-edits registry, decrements the transaction-depth
  counter and releases the lock. Unlocking a mutex that is not held is undefined
  behaviour, here the error \<open>NotInTransaction\<close>.
\<close>

definition impl_endTransaction :: "'a world \<Rightarrow> error + 'a world" where
  "impl_endTransaction w =
     (if \<not> m_transactionMutex w then Inl NotInTransaction
      else
        (let w1 = (release (m_detachedRoot w) (share (payload (m_root w)) w))
                    \<lparr>m_detachedRoot := payload (m_root w)\<rparr>;
             w2 = (fold (\<lambda>e. release (payload e)) (m_openEdits w1) w1)\<lparr>m_openEdits := []\<rparr>
         in Inr (w2\<lparr>transactions := transactions w2 - 1, m_transactionMutex := False\<rparr>)))"

text \<open>\<^verbatim>\<open>void RootObject<T>::endTransaction()\<close>.\<close>

definition endTransaction :: "'a world \<Rightarrow> error + 'a world" where
  "endTransaction w = impl_endTransaction w"

text \<open>
  Modelled from the spec: \<^verbatim>\<open>impl::RootObject::detachedRoot()\<close> is declared only.
  Section 4.4: it returns the current committed handle (an aliasing reference-count
  increment) without acquiring the transaction lock.
\<close>

definition detachedRoot :: "'a world \<Rightarrow> addr option \<times> 'a world" where
  "detachedRoot w = (m_detachedRoot w, share (m_detachedRoot w) w)"

text \<open>\<^verbatim>\<open>std::shared_ptr<const T> RootObject<T>::detachedPayload() const\<close>.\<close>

definition detachedPayload :: "'a world \<Rightarrow> addr option \<times> 'a world" where
  "detachedPayload w = detachedRoot w"

section \<open>Code that uses the library\<close>

text \<open>
  Operations on the nested Member in field \<open>i\<close> of the struct in block \<open>a\<close>
  (\<^verbatim>\<open>p->field.get()\<close>, \<^verbatim>\<open>p->field = other\<close>, \<^verbatim>\<open>p->field = u\<close> for a \<open>u\<close> of
  type \<open>T\<close> passed by reference): the Member is read
  from the block, the operation runs, and the Member's \<^verbatim>\<open>m_data\<close> is written back.
\<close>

definition get_field :: "nat \<Rightarrow> addr \<Rightarrow> nat \<Rightarrow> 'a world \<Rightarrow> error + (addr option \<times> 'a world)" where
  "get_field n a i w =
     (case field a i w of Inl e \<Rightarrow> Inl e
      | Inr m \<Rightarrow>
          (case Member_get n m w of Inl e \<Rightarrow> Inl e
           | Inr (p, m', w') \<Rightarrow>
               (case put_field a i m' w' of Inl e \<Rightarrow> Inl e
                | Inr w'' \<Rightarrow> Inr (p, w''))))"

definition assign_field :: "nat \<Rightarrow> addr \<Rightarrow> nat \<Rightarrow> Data \<Rightarrow> 'a world \<Rightarrow> error + 'a world" where
  "assign_field n a i other w =
     (case field a i w of Inl e \<Rightarrow> Inl e
      | Inr m \<Rightarrow>
          (case Member_assign n m other w of Inl e \<Rightarrow> Inl e
           | Inr (m', w') \<Rightarrow> put_field a i m' w'))"

definition assign_value_field :: "nat \<Rightarrow> addr \<Rightarrow> nat \<Rightarrow> 'a obj \<Rightarrow> 'a world \<Rightarrow> error + 'a world" where
  "assign_value_field n a i u w =
     (case field a i w of Inl e \<Rightarrow> Inl e
      | Inr m \<Rightarrow>
          (case Member_assign_lvalue n m u w of Inl e \<Rightarrow> Inl e
           | Inr (m', w') \<Rightarrow> put_field a i m' w'))"

text \<open>
  Writing through a Member several times in a row: each write takes the mutable pointer
  (\<^verbatim>\<open>get()\<close>) and stores new plain data behind it.
\<close>

fun write_each :: "nat \<Rightarrow> Data \<Rightarrow> 'a list \<Rightarrow> 'a world \<Rightarrow> error + (Data \<times> 'a world)" where
  "write_each n m [] w = Inr (m, w)"
| "write_each n m (x # xs) w =
     (case Member_get n m w of Inl e \<Rightarrow> Inl e
      | Inr (p, m', w') \<Rightarrow>
          (case p of None \<Rightarrow> Inl NullDeref
           | Some a \<Rightarrow>
               (case put_plain a x w' of Inl e \<Rightarrow> Inl e
                | Inr w'' \<Rightarrow> write_each n m' xs w'')))"

text \<open>
  One transaction that writes the plain data \<open>x\<close> through the nested Member in field \<open>i\<close>
  of the root value:
  \<^verbatim>\<open>auto r = root.beginTransaction(); *r->field.get() = x; root.endTransaction();\<close>
\<close>

definition edit_field :: "nat \<Rightarrow> nat \<Rightarrow> 'a \<Rightarrow> 'a world \<Rightarrow> error + 'a world" where
  "edit_field n i x w =
     (case beginTransaction n w of Inl e \<Rightarrow> Inl e
      | Inr (r, w1) \<Rightarrow>
          (case r of None \<Rightarrow> Inl NullDeref
           | Some a \<Rightarrow>
               (case get_field n a i w1 of Inl e \<Rightarrow> Inl e
                | Inr (p, w2) \<Rightarrow>
                    (case p of None \<Rightarrow> Inl NullDeref
                     | Some q \<Rightarrow>
                         (case put_plain q x w2 of Inl e \<Rightarrow> Inl e
                          | Inr w3 \<Rightarrow> endTransaction w3)))))"

text \<open>
  A Member is constructed from constructor arguments and mutable access is taken at once.
  The result is the address of the constructed block, the pointer that \<^verbatim>\<open>get()\<close> returns
  and the number of blocks that \<^verbatim>\<open>get()\<close> allocated.
\<close>

definition fresh_then_get :: "nat \<Rightarrow> 'a obj \<Rightarrow> 'a world \<Rightarrow> error + (addr option \<times> addr option \<times> nat)" where
  "fresh_then_get n v w =
     (let (m, w1) = Member_ctor v w in
      case Member_get n m w1 of Inl e \<Rightarrow> Inl e
      | Inr (p, m', w2) \<Rightarrow> Inr (qdata m, p, next_addr w2 - next_addr w1))"



text \<open>
  What a thread can do with a root and its tree through the public interface; handles and
  pointers that an operation returns are the caller's local variables and are dropped here.
\<close>

datatype 'a op =
    Begin | End | Snapshot
  | New "'a obj"
  | CopyOf Data
  | Get Data
  | GetField addr nat
  | AssignField addr nat Data
  | AssignValueField addr nat "'a obj"
  | Put addr 'a

fun step :: "nat \<Rightarrow> 'a op \<Rightarrow> 'a world \<Rightarrow> error + 'a world" where
  "step n Begin w = (case beginTransaction n w of Inl e \<Rightarrow> Inl e | Inr (p, w') \<Rightarrow> Inr w')"
| "step n End w = endTransaction w"
| "step n Snapshot w = Inr (snd (detachedPayload w))"
| "step n (New v) w = Inr (snd (Member_ctor v w))"
| "step n (CopyOf m) w = (case Member_copy_ctor n m w of Inl e \<Rightarrow> Inl e | Inr (m', w') \<Rightarrow> Inr w')"
| "step n (Get m) w = (case Member_get n m w of Inl e \<Rightarrow> Inl e | Inr (p, m', w') \<Rightarrow> Inr w')"
| "step n (GetField a i) w = (case get_field n a i w of Inl e \<Rightarrow> Inl e | Inr (p, w') \<Rightarrow> Inr w')"
| "step n (AssignField a i other) w = assign_field n a i other w"
| "step n (AssignValueField a i u) w = assign_value_field n a i u w"
| "step n (Put a x) w = put_plain a x w"

fun run :: "nat \<Rightarrow> 'a op list \<Rightarrow> 'a world \<Rightarrow> error + 'a world" where
  "run n [] w = Inr w"
| "run n (x # xs) w = (case step n x w of Inl e \<Rightarrow> Inl e | Inr w' \<Rightarrow> run n xs w')"

section \<open>Notions used in the statements\<close>

text \<open>The allocator invariant: no block lives at or beyond the next address to hand out.\<close>

definition store_ok :: "'a world \<Rightarrow> bool" where
  "store_ok w = (\<forall>a. next_addr w \<le> a \<longrightarrow> blocks w a = None)"

text \<open>The values in the store, without the use counts.\<close>

definition vals :: "'a world \<Rightarrow> addr \<Rightarrow> 'a obj option" where
  "vals w a = map_option val (blocks w a)"

text \<open>The use counts in the store.\<close>

definition counts :: "'a world \<Rightarrow> addr \<Rightarrow> nat option" where
  "counts w a = map_option use_count (blocks w a)"

text \<open>A handle that points at a block of the store.\<close>

definition valid :: "addr option \<Rightarrow> 'a world \<Rightarrow> bool" where
  "valid p w = (case p of None \<Rightarrow> False | Some a \<Rightarrow> blocks w a \<noteq> None)"

text \<open>The handles of a list of Members each gain one owner.\<close>

definition share_all :: "Data list \<Rightarrow> 'a world \<Rightarrow> 'a world" where
  "share_all ks w = fold (\<lambda>k. share (payload k)) ks w"

text \<open>
  The state after a copy-on-write of Member \<open>m\<close> holding \<open>v\<close>: the nested handles of
  the copied value gain an owner, the copy lives in a new block, the old handle is given
  up and the new one is registered.
\<close>

definition cow :: "Data \<Rightarrow> 'a obj \<Rightarrow> 'a world \<Rightarrow> 'a world" where
  "cow m v w =
     openEdit \<lparr>qdata = Some (next_addr w), payload = Some (next_addr w)\<rparr>
       (release (payload m)
         ((share_all (kids v) w)\<lparr>blocks := (blocks (share_all (kids v) w))
              (next_addr w \<mapsto> \<lparr>val = v, use_count = 1\<rparr>),
            next_addr := Suc (next_addr w)\<rparr>))"

text \<open>
  What Member operations leave alone: the lock, the counter, the root handle and the
  committed snapshot; and, outside a transaction, the registry. Inside a transaction they
  only append to the registry. They remove no block and keep the allocator invariant.
\<close>

definition frame :: "'a world \<Rightarrow> 'a world \<Rightarrow> bool" where
  "frame w w' =
     (m_transactionMutex w' = m_transactionMutex w \<and> transactions w' = transactions w
      \<and> m_root w' = m_root w \<and> m_detachedRoot w' = m_detachedRoot w
      \<and> (transactions w = 0 \<longrightarrow> m_openEdits w' = m_openEdits w)
      \<and> (\<exists>es. m_openEdits w' = m_openEdits w @ es)
      \<and> (\<forall>a. blocks w a \<noteq> None \<longrightarrow> blocks w' a \<noteq> None)
      \<and> (store_ok w \<longrightarrow> store_ok w'))"

text \<open>The state of the root between transactions and inside one.\<close>

definition idle_inv :: "'a world \<Rightarrow> bool" where
  "idle_inv w =
     (transactions w = (if m_transactionMutex w then 1 else 0)
      \<and> (\<not> m_transactionMutex w \<longrightarrow> m_openEdits w = []))"

text \<open>
  A well-formed root: the allocator invariant, the lock and the counter agree, the root
  handle and the committed snapshot point at blocks, and between transactions the
  committed snapshot is the root's block.
\<close>

definition root_ok :: "'a world \<Rightarrow> bool" where
  "root_ok w =
     (store_ok w \<and> idle_inv w \<and> payload (m_root w) = qdata (m_root w)
      \<and> valid (qdata (m_root w)) w \<and> valid (m_detachedRoot w) w
      \<and> (\<not> m_transactionMutex w \<longrightarrow> m_detachedRoot w = qdata (m_root w)))"

text \<open>
  The value of a state tree as a reader sees it through a handle: the plain data of the
  block and, recursively, the values behind its nested Members. The first argument bounds
  the depth.
\<close>

datatype 'a tree = Tree 'a "'a tree list"

fun tree_of :: "nat \<Rightarrow> 'a world \<Rightarrow> Data \<Rightarrow> 'a tree option"
  and trees_of :: "nat \<Rightarrow> 'a world \<Rightarrow> Data list \<Rightarrow> 'a tree list option"
where
  "tree_of 0 w d = None"
| "tree_of (Suc n) w d =
     (case deref d w of Inl e \<Rightarrow> None
      | Inr v \<Rightarrow>
          (case trees_of n w (kids v) of None \<Rightarrow> None
           | Some ts \<Rightarrow> Some (Tree (plain v) ts)))"
| "trees_of n w [] = Some []"
| "trees_of n w (k # ks) =
     (case tree_of n w k of None \<Rightarrow> None
      | Some t \<Rightarrow> (case trees_of n w ks of None \<Rightarrow> None | Some ts \<Rightarrow> Some (t # ts)))"

text \<open>The part of the store that was allocated at or after address \<open>a\<close>.\<close>

definition only_from :: "addr \<Rightarrow> 'a world \<Rightarrow> 'a world" where
  "only_from a w = w\<lparr>blocks := (\<lambda>b. if b < a then None else blocks w b)\<rparr>"

text \<open>
  A later state that only added blocks: every block that existed is unchanged (value and
  use count), and so are the counter and the fields of the root.
\<close>

definition extends :: "'a world \<Rightarrow> 'a world \<Rightarrow> bool" where
  "extends w w' =
     (next_addr w \<le> next_addr w' \<and> (\<forall>a < next_addr w. blocks w' a = blocks w a)
      \<and> transactions w' = transactions w \<and> m_root w' = m_root w
      \<and> m_openEdits w' = m_openEdits w \<and> m_detachedRoot w' = m_detachedRoot w
      \<and> m_transactionMutex w' = m_transactionMutex w)"

text \<open>
  The part of a target Member's tree that a copy assignment writes in place. A Member that
  is shared is replaced as a whole (\<open>Shared\<close>). A Member that is detached keeps its block,
  at the address recorded, and the assignment of \<open>T\<close> goes on to its nested Members, whose
  shapes are listed in declaration order (\<open>Own\<close>).
\<close>

datatype shape = Shared | Own addr "shape list"



text \<open>
  Member \<open>m\<close> has the shape \<open>sh\<close> in state \<open>w\<close>. The first argument is the depth bound
  with which \<open>Member_assign\<close> gets through the shape. The pointer of a shared Member is null
  or an address that was handed out.
\<close>

fun fits :: "nat \<Rightarrow> 'a world \<Rightarrow> Data \<Rightarrow> shape \<Rightarrow> bool"
  and fits_list :: "nat \<Rightarrow> 'a world \<Rightarrow> Data list \<Rightarrow> shape list \<Rightarrow> bool"
where
  "fits n w m Shared =
     (\<not> detached m w \<and> (case qdata m of None \<Rightarrow> True | Some q \<Rightarrow> q < next_addr w))"
| "fits 0 w m (Own a shs) = False"
| "fits (Suc n) w m (Own a shs) =
     (detached m w \<and> qdata m = Some a
      \<and> (case blocks w a of None \<Rightarrow> False | Some b \<Rightarrow> fits_list n w (kids (val b)) shs))"
| "fits_list n w [] [] = True"
| "fits_list n w (k # ks) (sh # shs) = (fits n w k sh \<and> fits_list n w ks shs)"
| "fits_list n w [] (sh # shs) = False"
| "fits_list n w (k # ks) [] = False"


text \<open>
  The addresses of the blocks that make up the tree behind a handle, down to the given
  depth.
\<close>

fun reach :: "nat \<Rightarrow> 'a world \<Rightarrow> Data \<Rightarrow> addr set"
  and reaches :: "nat \<Rightarrow> 'a world \<Rightarrow> Data list \<Rightarrow> addr set"
where
  "reach 0 w d = {}"
| "reach (Suc n) w d =
     (case qdata d of None \<Rightarrow> {}
      | Some a \<Rightarrow> (case blocks w a of None \<Rightarrow> {} | Some b \<Rightarrow> insert a (reaches n w (kids (val b)))))"
| "reaches n w [] = {}"
| "reaches n w (k # ks) = reach n w k \<union> reaches n w ks"

text \<open>
  The handles of the blocks at the addresses \<open>p\<close>, ..., \<open>q - 1\<close>, in this order.
\<close>

definition new_handles :: "addr \<Rightarrow> addr \<Rightarrow> Data list" where
  "new_handles p q = map (\<lambda>a. \<lparr>qdata = Some a, payload = Some a\<rparr>) [p..<q]"




section \<open>Example states\<close>

text \<open>A root constructed from a \<^verbatim>\<open>NewObject\<close> that holds a leaf value.\<close>

definition leaf_root_world :: "int world" where
  "leaf_root_world = (let (obj, w) = NewObject_ctor (Obj 7 []) empty_world in RootObject_ctor obj w)"

text \<open>
  The root of the scenario \<^verbatim>\<open>{a: 1, b: 2}\<close>: two Members holding 1 and 2, a struct holding
  the two Members, and a root constructed from it.
\<close>

definition pair_root_world :: "int world" where
  "pair_root_world =
     (let (a, w1) = Member_ctor (Obj 1 []) empty_world;
          (b, w2) = Member_ctor (Obj 2 []) w1;
          (obj, w3) = NewObject_ctor (Obj 0 [a, b]) w2
      in RootObject_ctor obj w3)"

text \<open>
  A root whose value holds two Members of a struct type that itself holds one Member:
  \<^verbatim>\<open>{x: {a: 1}, y: {a: 2}}\<close>.
\<close>

definition nested_root_world :: "int world" where
  "nested_root_world =
     (let (a1, w1) = Member_ctor (Obj 1 []) empty_world;
          (x, w2) = Member_ctor (Obj 10 [a1]) w1;
          (a2, w3) = Member_ctor (Obj 2 []) w2;
          (y, w4) = Member_ctor (Obj 20 [a2]) w3;
          (obj, w5) = NewObject_ctor (Obj 0 [x, y]) w4
      in RootObject_ctor obj w5)"

text \<open>
  The state after \<^verbatim>\<open>auto r = root.beginTransaction(); r->x.get();\<close> on that root: block 5
  is the private copy of the root value and block 6 the private copy of \<^verbatim>\<open>x\<close>, whose
  nested Member still shares block 0 with the committed snapshot.
\<close>

definition nested_txn_world :: "int world" where
  "nested_txn_world =
     \<lparr>blocks = (\<lambda>a. None)
        (0 \<mapsto> \<lparr>val = Obj 1 [], use_count = 2\<rparr>,
         1 \<mapsto> \<lparr>val = Obj 10 [\<lparr>qdata = Some 0, payload = Some 0\<rparr>], use_count = 1\<rparr>,
         2 \<mapsto> \<lparr>val = Obj 2 [], use_count = 1\<rparr>,
         3 \<mapsto> \<lparr>val = Obj 20 [\<lparr>qdata = Some 2, payload = Some 2\<rparr>], use_count = 2\<rparr>,
         4 \<mapsto> \<lparr>val = Obj 0 [\<lparr>qdata = Some 1, payload = Some 1\<rparr>,
                           \<lparr>qdata = Some 3, payload = Some 3\<rparr>], use_count = 1\<rparr>,
         5 \<mapsto> \<lparr>val = Obj 0 [\<lparr>qdata = Some 6, payload = Some 6\<rparr>,
                           \<lparr>qdata = Some 3, payload = Some 3\<rparr>], use_count = 2\<rparr>,
         6 \<mapsto> \<lparr>val = Obj 10 [\<lparr>qdata = Some 0, payload = Some 0\<rparr>], use_count = 2\<rparr>),
      next_addr = 7, transactions = 1,
      m_root = \<lparr>qdata = Some 5, payload = Some 5\<rparr>,
      m_openEdits = [\<lparr>qdata = Some 5, payload = Some 5\<rparr>, \<lparr>qdata = Some 6, payload = Some 6\<rparr>],
      m_detachedRoot = Some 4, m_transactionMutex = True\<rparr>"

text \<open>
  The Members of that state: \<^verbatim>\<open>r->x\<close> (detached), \<^verbatim>\<open>r->y\<close> (shared), and their
  nested Members \<^verbatim>\<open>r->x.a\<close> and \<^verbatim>\<open>r->y.a\<close> (both shared).
\<close>

definition txn_x :: Data where
  "txn_x = \<lparr>qdata = Some 6, payload = Some 6\<rparr>"

definition txn_y :: Data where
  "txn_y = \<lparr>qdata = Some 3, payload = Some 3\<rparr>"

definition txn_xa :: Data where
  "txn_xa = \<lparr>qdata = Some 0, payload = Some 0\<rparr>"

definition txn_ya :: Data where
  "txn_ya = \<lparr>qdata = Some 2, payload = Some 2\<rparr>"

section \<open>Basic facts\<close>

lemma share_fields [simp]:
  "next_addr (share p w) = next_addr w"
  "transactions (share p w) = transactions w"
  "m_root (share p w) = m_root w"
  "m_openEdits (share p w) = m_openEdits w"
  "m_detachedRoot (share p w) = m_detachedRoot w"
  "m_transactionMutex (share p w) = m_transactionMutex w"
  by (simp_all add: share_def split: option.splits)

lemma release_fields [simp]:
  "next_addr (release p w) = next_addr w"
  "transactions (release p w) = transactions w"
  "m_root (release p w) = m_root w"
  "m_openEdits (release p w) = m_openEdits w"
  "m_detachedRoot (release p w) = m_detachedRoot w"
  "m_transactionMutex (release p w) = m_transactionMutex w"
  by (simp_all add: release_def split: option.splits)

lemma blocks_share:
  "blocks (share p w) a =
     (if p = Some a then map_option (\<lambda>b. b\<lparr>use_count := Suc (use_count b)\<rparr>) (blocks w a)
      else blocks w a)"
  by (auto simp: share_def split: option.splits)

lemma blocks_release:
  "blocks (release p w) a =
     (if p = Some a then map_option (\<lambda>b. b\<lparr>use_count := use_count b - 1\<rparr>) (blocks w a)
      else blocks w a)"
  by (auto simp: release_def split: option.splits)

lemma val_share [simp]: "map_option val (blocks (share p w) a) = map_option val (blocks w a)"
  by (cases "blocks w a") (simp_all add: blocks_share)

lemma val_release [simp]: "map_option val (blocks (release p w) a) = map_option val (blocks w a)"
  by (cases "blocks w a") (simp_all add: blocks_release)

lemma load_alt: "load p w = (case p of None \<Rightarrow> Inl NullDeref
   | Some a \<Rightarrow> (case map_option val (blocks w a) of None \<Rightarrow> Inl NullDeref | Some v \<Rightarrow> Inr v))"
  by (simp add: load_def split: option.splits)

lemma deref_load: "deref d w = load (qdata d) w"
  by (simp add: deref_def load_def)

lemma load_share [simp]: "load q (share p w) = load q w"
  by (cases q) (simp_all add: load_alt)

lemma load_release [simp]: "load q (release p w) = load q w"
  by (cases q) (simp_all add: load_alt)

lemma deep_share [simp]: "deep (share p w) = deep w"
  by (simp add: deep_def)

lemma deep_release [simp]: "deep (release p w) = deep w"
  by (simp add: deep_def)

lemma isOpenEdit_share [simp]: "isOpenEdit d (share p w) = isOpenEdit d w"
  by (simp add: isOpenEdit_def)

lemma isOpenEdit_release [simp]: "isOpenEdit d (release p w) = isOpenEdit d w"
  by (simp add: isOpenEdit_def)

lemma share_all_simps [simp]:
  "share_all [] w = w"
  "share_all (k # ks) w = share_all ks (share (payload k) w)"
  by (simp_all add: share_all_def)

lemma share_all_fields [simp]:
  "next_addr (share_all ks w) = next_addr w"
  "transactions (share_all ks w) = transactions w"
  "m_root (share_all ks w) = m_root w"
  "m_openEdits (share_all ks w) = m_openEdits w"
  "m_detachedRoot (share_all ks w) = m_detachedRoot w"
  "m_transactionMutex (share_all ks w) = m_transactionMutex w"
  by (induction ks arbitrary: w; simp)+

lemma val_share_all [simp]:
  "map_option val (blocks (share_all ks w) a) = map_option val (blocks w a)"
  by (induction ks arbitrary: w) simp_all

lemma load_share_all [simp]: "load q (share_all ks w) = load q w"
  by (cases q) (simp_all add: load_alt)

lemma deep_share_all [simp]: "deep (share_all ks w) = deep w"
  by (simp add: deep_def)

lemma isOpenEdit_share_all [simp]: "isOpenEdit d (share_all ks w) = isOpenEdit d w"
  by (simp add: isOpenEdit_def)

lemma Member_copy_ctor_shallow:
  "\<not> deep w \<Longrightarrow> Member_copy_ctor n other w = Inr (other, share (payload other) w)"
  by (cases n) simp_all

lemma copy_kids_shallow:
  "\<not> deep w \<Longrightarrow> copy_kids n ks w = Inr (ks, share_all ks w)"
  by (induction ks arbitrary: w) (simp_all add: Member_copy_ctor_shallow)

lemma T_copy_ctor_shallow:
  "\<not> deep w \<Longrightarrow> T_copy_ctor n v w = Inr (v, share_all (kids v) w)"
  by (simp add: copy_kids_shallow)

lemma Member_get_detached:
  "detached m w \<Longrightarrow> Member_get n m w = Inr (qdata m, m, w)"
  by (simp add: Member_get_def)

lemma Member_get_shared:
  assumes "\<not> detached m w" and "deref m w = Inr v"
  shows "Member_get n m w =
     (let w1 = share_all (kids v) w; (d, w2) = construct v w1; (m', w3) = detachWith d m w2
      in Inr (qdata m', m', w3))"
proof -
  from assms(1) have nd: "\<not> deep w" by (simp add: detached_def)
  show ?thesis using assms
    by (simp add: Member_get_def T_copy_ctor_shallow [OF nd] del: T_copy_ctor.simps)
qed

lemma construct_eq:
  "construct v w = (\<lparr>qdata = Some (next_addr w), payload = Some (next_addr w)\<rparr>,
     w\<lparr>blocks := (blocks w)(next_addr w \<mapsto> \<lparr>val = v, use_count = 1\<rparr>), next_addr := Suc (next_addr w)\<rparr>)"
  by (simp add: construct_def Let_def)

lemma openEdit_fields [simp]:
  "next_addr (openEdit d w) = next_addr w"
  "transactions (openEdit d w) = transactions w"
  "m_root (openEdit d w) = m_root w"
  "m_openEdits (openEdit d w) = m_openEdits w @ [d]"
  "m_detachedRoot (openEdit d w) = m_detachedRoot w"
  "m_transactionMutex (openEdit d w) = m_transactionMutex w"
  by (simp_all add: openEdit_def)

lemma val_openEdit [simp]: "map_option val (blocks (openEdit d w) a) = map_option val (blocks w a)"
  by (simp add: openEdit_def)

lemma load_openEdit [simp]: "load q (openEdit d w) = load q w"
  by (cases q) (simp_all add: load_alt)

lemma isOpenEdit_openEdit_self [simp]: "isOpenEdit d (openEdit d w)"
  by (simp add: isOpenEdit_def)


lemma put_plain_ok:
  "blocks w a = Some b \<Longrightarrow>
   put_plain a x w = Inr (w\<lparr>blocks := (blocks w)(a \<mapsto> b\<lparr>val := Obj x (kids (val b))\<rparr>)\<rparr>)"
  by (simp add: put_plain_def)

lemma write_each_detached:
  assumes "isOpenEdit m w" and "qdata m = Some a" and "load (Some a) w = Inr v"
  shows "\<exists>w'. write_each n m xs w = Inr (m, w') \<and> next_addr w' = next_addr w
           \<and> m_openEdits w' = m_openEdits w
           \<and> load (Some a) w' = Inr (Obj (last (plain v # xs)) (kids v))"
  using assms
proof (induction xs arbitrary: w v)
  case Nil
  then show ?case by (cases v) simp
next
  case (Cons x xs)
  from Cons.prems(3) obtain b where b: "blocks w a = Some b" "val b = v"
    by (auto simp: load_def split: option.splits)
  let ?w = "w\<lparr>blocks := (blocks w)(a \<mapsto> b\<lparr>val := Obj x (kids (val b))\<rparr>)\<rparr>"
  have get: "Member_get n m w = Inr (Some a, m, w)"
    using Cons.prems(1,2) by (simp add: Member_get_detached detached_def)
  have 1: "isOpenEdit m ?w" using Cons.prems(1) by (simp add: isOpenEdit_def)
  have 2: "load (Some a) ?w = Inr (Obj x (kids v))" using b by (simp add: load_def)
  from Cons.IH [OF 1 Cons.prems(2) 2] obtain w' where
    w': "write_each n m xs ?w = Inr (m, w')" "next_addr w' = next_addr w"
        "m_openEdits w' = m_openEdits w"
        "load (Some a) w' = Inr (Obj (last (x # xs)) (kids v))"
    by auto
  show ?case using get b w' by (simp add: put_plain_ok)
qed

lemma store_ok_fresh: "store_ok w \<Longrightarrow> blocks w (next_addr w) = None"
  by (simp add: store_ok_def)

lemma store_ok_deref: "store_ok w \<Longrightarrow> deref m w = Inr v \<Longrightarrow> qdata m \<noteq> Some (next_addr w)"
  by (auto simp: store_ok_def deref_def split: option.splits)

lemma cow_fields [simp]:
  "next_addr (cow m v w) = Suc (next_addr w)"
  "transactions (cow m v w) = transactions w"
  "m_root (cow m v w) = m_root w"
  "m_openEdits (cow m v w) = m_openEdits w @ [\<lparr>qdata = Some (next_addr w), payload = Some (next_addr w)\<rparr>]"
  "m_detachedRoot (cow m v w) = m_detachedRoot w"
  "m_transactionMutex (cow m v w) = m_transactionMutex w"
  by (simp_all add: cow_def)

lemma val_cow:
  "map_option val (blocks (cow m v w) a) =
     (if a = next_addr w then Some v else map_option val (blocks w a))"
  by (simp add: cow_def)

lemma load_cow_new [simp]: "load (Some (next_addr w)) (cow m v w) = Inr v"
  by (simp add: load_alt val_cow)

lemma Member_get_shared_eq:
  assumes "\<not> detached m w" and "deref m w = Inr v"
  shows "Member_get n m w =
     Inr (Some (next_addr w), \<lparr>qdata = Some (next_addr w), payload = Some (next_addr w)\<rparr>, cow m v w)"
  using assms by (simp add: Member_get_shared construct_eq detachWith_def cow_def Let_def)

lemma Member_get_shared_result:
  assumes "\<not> detached m w" and "deref m w = Inr v"
  defines "p \<equiv> next_addr w"
  defines "m' \<equiv> \<lparr>qdata = Some p, payload = Some p\<rparr>"
  shows "\<exists>w'. Member_get n m w = Inr (Some p, m', w')
           \<and> next_addr w' = Suc p \<and> load (Some p) w' = Inr v
           \<and> m_openEdits w' = m_openEdits w @ [m'] \<and> transactions w' = transactions w
           \<and> isOpenEdit m' w'"
  using assms(1,2) unfolding p_def m'_def
  by (simp add: Member_get_shared_eq isOpenEdit_def)

lemma deref_construct:
  "construct v w = (m, w1) \<Longrightarrow> deref m w1 = Inr v"
  by (auto simp: construct_eq deref_def)

lemma beginTransaction_eq:
  assumes "\<not> m_transactionMutex w" and "deref (m_root w) w = Inr v"
  shows "beginTransaction n w =
     Inr (Some (next_addr w),
          (cow (m_root w) v (w\<lparr>m_transactionMutex := True, transactions := Suc (transactions w)\<rparr>))
            \<lparr>m_root := \<lparr>qdata = Some (next_addr w), payload = Some (next_addr w)\<rparr>\<rparr>)"
proof -
  let ?w0 = "w\<lparr>m_transactionMutex := True, transactions := Suc (transactions w)\<rparr>"
  have nd: "\<not> deep ?w0" by (simp add: deep_def)
  have d: "deref (m_root ?w0) ?w0 = Inr v"
    using assms(2) by (auto simp: deref_def split: option.splits)
  show ?thesis using assms(1) d
    by (simp add: beginTransaction_def impl_beginTransaction_def T_copy_ctor_shallow [OF nd]
        construct_eq detachWith_def cow_def Let_def del: T_copy_ctor.simps)
qed

section \<open>What the Member operations leave alone\<close>

lemma present_share [simp]: "blocks (share p w) a = None \<longleftrightarrow> blocks w a = None"
  by (simp add: blocks_share)

lemma present_release [simp]: "blocks (release p w) a = None \<longleftrightarrow> blocks w a = None"
  by (simp add: blocks_release)

lemma store_ok_share [simp]: "store_ok (share p w) = store_ok w"
  by (simp add: store_ok_def)

lemma store_ok_release [simp]: "store_ok (release p w) = store_ok w"
  by (simp add: store_ok_def)

lemma frame_refl [simp]: "frame w w"
  by (simp add: frame_def)

lemma frame_trans: "frame w w1 \<Longrightarrow> frame w1 w2 \<Longrightarrow> frame w w2"
  by (auto simp: frame_def)

lemma frame_share [simp]: "frame w (share p w)"
  by (simp add: frame_def)

lemma frame_release [simp]: "frame w (release p w)"
  by (simp add: frame_def)

lemma present_openEdit [simp]: "blocks (openEdit d w) a = None \<longleftrightarrow> blocks w a = None"
  by (simp add: openEdit_def)

lemma store_ok_openEdit [simp]: "store_ok (openEdit d w) = store_ok w"
  by (simp add: store_ok_def)

lemma frame_construct: "construct v w = (d, w') \<Longrightarrow> frame w w'"
  by (auto simp: construct_eq frame_def store_ok_def)

lemma frame_put_plain: "put_plain a x w = Inr w' \<Longrightarrow> frame w w'"
  by (auto simp: put_plain_def frame_def store_ok_def split: option.splits)

lemma frame_put_field: "put_field a i d w = Inr w' \<Longrightarrow> frame w w'"
  by (auto simp: put_field_def frame_def store_ok_def split: option.splits if_splits)

lemma frame_detachWith:
  "\<not> deep w \<Longrightarrow> detachWith d m w = (m', w') \<Longrightarrow> frame w w'"
  by (auto simp: detachWith_def frame_def deep_def simp flip: not_None_eq)

lemma frame_deep: "frame w w' \<Longrightarrow> deep w' = deep w"
  by (simp add: frame_def deep_def)

declare T_copy_ctor.simps [simp del]

lemma frame_copy:
  "Member_copy_ctor n m w = Inr (m', w') \<Longrightarrow> frame w w'"
  "T_copy_ctor n v w = Inr (v', w') \<Longrightarrow> frame w w'"
  "copy_kids n ks w = Inr (ks', w') \<Longrightarrow> frame w w'"
proof (induction n m w and n v w and n ks w arbitrary: m' w' and v' w' and ks' w'
    rule: Member_copy_ctor_T_copy_ctor_copy_kids.induct)
  case (1 other w)
  then show ?case by (auto split: if_splits)
next
  case (2 n other w)
  then show ?case
    by (auto split: if_splits sum.splits dest!: frame_construct intro: frame_trans)
next
  case (3 n v w)
  then show ?case by (auto simp: T_copy_ctor.simps split: sum.splits)
next
  case (4 n w)
  then show ?case by simp
next
  case (5 n k ks w)
  then show ?case by (auto split: sum.splits) (blast intro: frame_trans)
qed

lemma frame_cow_construct:
  assumes "\<not> deep w" and "T_copy_ctor n v w = Inr (v', w1)"
    and "construct v' w1 = (d, w2)" and "detachWith d m w2 = (m', w3)"
  shows "frame w w3"
proof -
  have 1: "frame w w1" by (rule frame_copy(2) [OF assms(2)])
  have 2: "frame w1 w2" by (rule frame_construct [OF assms(3)])
  from 1 2 have 12: "frame w w2" by (rule frame_trans)
  with assms(1) have "\<not> deep w2" by (simp add: frame_deep)
  then have "frame w2 w3" using assms(4) by (rule frame_detachWith)
  with 12 show ?thesis by (rule frame_trans)
qed

lemma frame_Member_get: "Member_get n m w = Inr (p, m', w') \<Longrightarrow> frame w w'"
  by (auto simp: Member_get_def detached_def split: if_splits sum.splits prod.splits
      intro: frame_cow_construct)

declare T_assign.simps [simp del]

lemma frame_assign:
  "Member_assign n m other w = Inr (m', w') \<Longrightarrow> frame w w'"
  "T_assign n a s w = Inr w' \<Longrightarrow> frame w w'"
  "assign_kids n a s i c w = Inr w' \<Longrightarrow> frame w w'"
proof (induction n m other w and n a s w and n a s i c w arbitrary: m' w' and w' and w'
    rule: Member_assign_T_assign_assign_kids.induct)
  case (1 m other w)
  then show ?case
    by (auto simp: detached_def split: if_splits sum.splits prod.splits
        intro: frame_cow_construct)
next
  case (2 n m other w)
  show ?case
  proof (cases "detached m w")
    case True
    with 2 show ?thesis by (auto split: option.splits sum.splits)
  next
    case False
    with 2(2) show ?thesis
      by (auto simp: detached_def split: sum.splits prod.splits intro: frame_cow_construct)
  qed
next
  case (3 n a s w)
  from 3(2) obtain v b w1 where
    s: "read_source s w = Inr v" "blocks w a = Some b"
       "length (kids (val b)) = length (kids v)" "put_plain a (plain v) w = Inr w1"
       "assign_kids n a s 0 (length (kids v)) w1 = Inr w'"
    by (auto simp: T_assign.simps split: sum.splits option.splits if_splits)
  have "frame w w1" using s(4) by (rule frame_put_plain)
  moreover have "frame w1 w'" using 3(1) s by simp
  ultimately show ?case by (rule frame_trans)
next
  case (4 n a s i w)
  then show ?case by simp
next
  case (5 n a s i c w)
  from 5(3) obtain m other m1 w1 w2 where
    s: "field a i w = Inr m" "source_field s i w = Inr other"
       "Member_assign n m other w = Inr (m1, w1)" "put_field a i m1 w1 = Inr w2"
       "assign_kids n a s (Suc i) c w2 = Inr w'"
    by (auto split: sum.splits)
  have "frame w w1" using 5(1) s by blast
  moreover have "frame w1 w2" using s(4) by (rule frame_put_field)
  moreover have "frame w2 w'" using 5(2) s by blast
  ultimately show ?case by (blast intro: frame_trans)
qed

lemma frame_Member_assign_lvalue:
  "Member_assign_lvalue n m u w = Inr (m', w') \<Longrightarrow> frame w w'"
  by (auto simp: Member_assign_lvalue_def Member_assign_value_def detached_def
      split: if_splits option.splits sum.splits prod.splits
      intro: frame_cow_construct dest: frame_assign(2))

lemma frame_get_field: "get_field n a i w = Inr (p, w') \<Longrightarrow> frame w w'"
  by (auto simp: get_field_def split: sum.splits
      dest!: frame_Member_get frame_put_field intro: frame_trans)

lemma frame_assign_field: "assign_field n a i other w = Inr w' \<Longrightarrow> frame w w'"
  by (auto simp: assign_field_def split: sum.splits
      dest!: frame_assign(1) frame_put_field intro: frame_trans)

lemma frame_assign_value_field: "assign_value_field n a i u w = Inr w' \<Longrightarrow> frame w w'"
  by (auto simp: assign_value_field_def split: sum.splits
      dest!: frame_Member_assign_lvalue frame_put_field intro: frame_trans)

lemma frame_idle_inv: "frame w w' \<Longrightarrow> idle_inv w \<Longrightarrow> idle_inv w'"
  by (auto simp: frame_def idle_inv_def split: if_splits)

lemma fold_release_fields [simp]:
  "next_addr (fold (\<lambda>e. release (payload e)) es w) = next_addr w"
  "transactions (fold (\<lambda>e. release (payload e)) es w) = transactions w"
  "m_root (fold (\<lambda>e. release (payload e)) es w) = m_root w"
  "m_openEdits (fold (\<lambda>e. release (payload e)) es w) = m_openEdits w"
  "m_detachedRoot (fold (\<lambda>e. release (payload e)) es w) = m_detachedRoot w"
  "m_transactionMutex (fold (\<lambda>e. release (payload e)) es w) = m_transactionMutex w"
  by (induction es arbitrary: w; simp)+

lemma val_fold_release [simp]:
  "map_option val (blocks (fold (\<lambda>e. release (payload e)) es w) a) = map_option val (blocks w a)"
  by (induction es arbitrary: w) simp_all

lemma endTransaction_result:
  assumes "endTransaction w = Inr w'"
  shows "m_transactionMutex w" "\<not> m_transactionMutex w'" "m_openEdits w' = []"
    "transactions w' = transactions w - 1" "m_detachedRoot w' = payload (m_root w)"
    "m_root w' = m_root w" "next_addr w' = next_addr w"
    "map_option val (blocks w' a) = map_option val (blocks w a)"
  using assms
  by (auto simp: endTransaction_def impl_endTransaction_def Let_def split: if_splits)

lemma beginTransaction_result:
  assumes "beginTransaction n w = Inr (p, w')"
  shows "\<not> m_transactionMutex w" "m_transactionMutex w'"
    "transactions w' = Suc (transactions w)"
proof -
  let ?w0 = "w\<lparr>m_transactionMutex := True, transactions := Suc (transactions w)\<rparr>"
  from assms show free: "\<not> m_transactionMutex w"
    by (auto simp: beginTransaction_def impl_beginTransaction_def split: if_splits)
  with assms obtain v v' w1 d w2 m' w3 where
    s: "T_copy_ctor n v ?w0 = Inr (v', w1)" "construct v' w1 = (d, w2)"
       "detachWith d (m_root w2) w2 = (m', w3)" "w' = w3\<lparr>m_root := m'\<rparr>"
    by (auto simp: beginTransaction_def impl_beginTransaction_def
        split: sum.splits prod.splits)
  have "\<not> deep ?w0" by (simp add: deep_def)
  from frame_cow_construct [OF this s(1,2,3)] have "frame ?w0 w3" .
  then show "m_transactionMutex w'" "transactions w' = Suc (transactions w)"
    using s(4) by (simp_all add: frame_def)
qed

lemma step_idle_inv:
  assumes "step n x w = Inr w'" and "idle_inv w"
  shows "idle_inv w'"
proof (cases x)
  case Begin
  with assms(1) obtain p where "beginTransaction n w = Inr (p, w')"
    by (auto split: sum.splits)
  from beginTransaction_result [OF this] assms(2) show ?thesis
    by (simp add: idle_inv_def)
next
  case End
  with assms(1) have "endTransaction w = Inr w'" by simp
  from endTransaction_result(1-4) [OF this] assms(2) show ?thesis
    by (simp add: idle_inv_def)
next
  case Snapshot
  with assms show ?thesis
    by (auto simp: detachedPayload_def detachedRoot_def intro: frame_idle_inv [OF frame_share])
next
  case (New v)
  with assms show ?thesis
    by (auto simp: Member_ctor_def construct_eq idle_inv_def)
next
  case (CopyOf m)
  with assms show ?thesis
    by (auto split: sum.splits dest!: frame_copy(1) intro: frame_idle_inv)
next
  case (Get m)
  with assms show ?thesis
    by (auto split: sum.splits dest!: frame_Member_get intro: frame_idle_inv)
next
  case (GetField a i)
  with assms show ?thesis
    by (auto split: sum.splits dest!: frame_get_field intro: frame_idle_inv)
next
  case (AssignField a i other)
  with assms show ?thesis
    by (auto dest!: frame_assign_field intro: frame_idle_inv)
next
  case (AssignValueField a i u)
  with assms show ?thesis
    by (auto dest!: frame_assign_value_field intro: frame_idle_inv)
next
  case (Put a x)
  with assms show ?thesis
    by (auto dest!: frame_put_plain intro: frame_idle_inv)
qed

lemma run_idle_inv:
  "run n ops w = Inr w' \<Longrightarrow> idle_inv w \<Longrightarrow> idle_inv w'"
  by (induction ops arbitrary: w) (auto split: sum.splits dest: step_idle_inv)

lemma RootObject_ctor_idle_inv:
  "transactions w0 = 0 \<Longrightarrow> idle_inv (RootObject_ctor obj w0)"
  by (simp add: RootObject_ctor_def idle_inv_def)

section \<open>Facts about the example states\<close>

lemmas eval_defs = NewObject_ctor_def construct_def RootObject_ctor_def empty_world_def
  share_def release_def Let_def beginTransaction_def impl_beginTransaction_def
  endTransaction_def impl_endTransaction_def deref_def T_copy_ctor.simps detachWith_def
  openEdit_def deep_def detached_def isOpenEdit_def null_Data_def

lemma leaf_root_world_eq:
  "leaf_root_world = RootObject_ctor \<lparr>qdata = Some 0, payload = Some 0\<rparr>
       (snd (NewObject_ctor (Obj 7 []) empty_world))"
  by (simp add: leaf_root_world_def NewObject_ctor_def construct_def Let_def empty_world_def)

lemma run_ex: "\<exists>w. run 0 [Begin, End, Begin, End] leaf_root_world = Inr w"
  by (simp add: leaf_root_world_def eval_defs)

lemma leaf_root_world_val:
  "leaf_root_world = \<lparr>blocks = (\<lambda>a. None)(0 \<mapsto> \<lparr>val = Obj 7 [], use_count = 2\<rparr>), next_addr = 1,
     transactions = 0, m_root = \<lparr>qdata = Some 0, payload = Some 0\<rparr>, m_openEdits = [],
     m_detachedRoot = Some 0, m_transactionMutex = False\<rparr>"
  by (simp add: leaf_root_world_def eval_defs numeral_2_eq_2)

lemma pair_root_world_val:
  "pair_root_world = \<lparr>blocks = (\<lambda>a. None)(0 \<mapsto> \<lparr>val = Obj 1 [], use_count = 1\<rparr>,
        1 \<mapsto> \<lparr>val = Obj 2 [], use_count = 1\<rparr>,
        2 \<mapsto> \<lparr>val = Obj 0 [\<lparr>qdata = Some 0, payload = Some 0\<rparr>, \<lparr>qdata = Some 1, payload = Some 1\<rparr>],
              use_count = 2\<rparr>),
     next_addr = 3, transactions = 0, m_root = \<lparr>qdata = Some 2, payload = Some 2\<rparr>,
     m_openEdits = [], m_detachedRoot = Some 2, m_transactionMutex = False\<rparr>"
  by (simp add: pair_root_world_def Member_ctor_def eval_defs numeral_2_eq_2 numeral_3_eq_3)

lemma nested_txn_world_reachable:
  "run 1 [Begin, GetField 5 0] nested_root_world = Inr nested_txn_world"
  apply (simp add: nested_root_world_def Member_ctor_def eval_defs get_field_def field_def
      put_field_def Member_get_def nested_txn_world_def eval_nat_numeral)
  apply (rule ext)
  apply (simp add: eval_nat_numeral)
  done

lemma nested_txn_fields:
  "field 5 0 nested_txn_world = Inr txn_x" "field 5 1 nested_txn_world = Inr txn_y"
  "field 6 0 nested_txn_world = Inr txn_xa" "field 3 0 nested_txn_world = Inr txn_ya"
  by (simp_all add: field_def nested_txn_world_def txn_x_def txn_y_def txn_xa_def txn_ya_def)

lemma nested_txn_facts:
  "next_addr nested_txn_world = 7" "transactions nested_txn_world = 1"
  "store_ok nested_txn_world"
  "detached txn_x nested_txn_world" "\<not> detached txn_y nested_txn_world"
  "\<not> detached txn_xa nested_txn_world" "\<not> detached txn_ya nested_txn_world"
  "deref txn_xa nested_txn_world = Inr (Obj 1 [])"
  "deref txn_ya nested_txn_world = Inr (Obj 2 [])"
  "deref txn_y nested_txn_world = Inr (Obj 20 [txn_ya])"
  by (simp_all add: nested_txn_world_def txn_x_def txn_y_def txn_xa_def txn_ya_def
      store_ok_def detached_def deep_def isOpenEdit_def deref_def)

section \<open>The values in the store\<close>

lemma vals_simps [simp]:
  "vals (share p w) = vals w"
  "vals (release p w) = vals w"
  "vals (share_all ks w) = vals w"
  "vals (openEdit d w) = vals w"
  "vals (fold (\<lambda>e. release (payload e)) es w) = vals w"
  by (simp_all add: vals_def fun_eq_iff)

lemma vals_cow [simp]: "vals (cow m v w) = (vals w)(next_addr w \<mapsto> v)"
  by (simp add: vals_def fun_eq_iff val_cow)

lemma vals_upd [simp]:
  "vals (w\<lparr>m_root := r\<rparr>) = vals w"
  "vals (w\<lparr>m_transactionMutex := b\<rparr>) = vals w"
  "vals (w\<lparr>transactions := t\<rparr>) = vals w"
  "vals (w\<lparr>m_openEdits := es\<rparr>) = vals w"
  "vals (w\<lparr>m_detachedRoot := d\<rparr>) = vals w"
  by (simp_all add: vals_def fun_eq_iff)

lemma load_vals:
  "load p w = (case p of None \<Rightarrow> Inl NullDeref
     | Some a \<Rightarrow> (case vals w a of None \<Rightarrow> Inl NullDeref | Some v \<Rightarrow> Inr v))"
  by (cases p) (simp_all add: load_alt vals_def)

lemma load_Some_vals: "load (Some a) w = Inr v \<longleftrightarrow> vals w a = Some v"
  by (simp add: load_vals split: option.splits)

lemma deref_vals: "deref m w = Inr v \<longleftrightarrow> (\<exists>a. qdata m = Some a \<and> vals w a = Some v)"
  by (auto simp: deref_def vals_def split: option.splits)

lemma deref_eq_vals:
  "deref m w = (case qdata m of None \<Rightarrow> Inl NullDeref
     | Some a \<Rightarrow> (case vals w a of None \<Rightarrow> Inl NullDeref | Some v \<Rightarrow> Inr v))"
  by (simp add: deref_load load_vals)

lemma deref_cong_vals:
  "vals w' a = vals w a \<Longrightarrow> qdata m = Some a \<Longrightarrow> deref m w' = deref m w"
  by (simp add: deref_eq_vals)

lemma field_vals:
  "vals w a = Some v \<Longrightarrow> i < length (kids v) \<Longrightarrow> field a i w = Inr (kids v ! i)"
  by (auto simp: field_def vals_def)

lemma put_field_vals:
  assumes "vals w a = Some v" and "i < length (kids v)"
  shows "\<exists>w'. put_field a i d w = Inr w'
           \<and> vals w' = (vals w)(a \<mapsto> Obj (plain v) ((kids v)[i := d]))
           \<and> next_addr w' = next_addr w \<and> transactions w' = transactions w
           \<and> m_root w' = m_root w \<and> m_openEdits w' = m_openEdits w
           \<and> m_detachedRoot w' = m_detachedRoot w
           \<and> m_transactionMutex w' = m_transactionMutex w"
  using assms by (auto simp: put_field_def vals_def fun_eq_iff)

lemma put_plain_vals:
  assumes "vals w a = Some v"
  shows "\<exists>w'. put_plain a x w = Inr w'
           \<and> vals w' = (vals w)(a \<mapsto> Obj x (kids v))
           \<and> next_addr w' = next_addr w \<and> transactions w' = transactions w
           \<and> m_root w' = m_root w \<and> m_openEdits w' = m_openEdits w
           \<and> m_detachedRoot w' = m_detachedRoot w
           \<and> m_transactionMutex w' = m_transactionMutex w"
  using assms by (auto simp: put_plain_def vals_def fun_eq_iff)

lemma endTransaction_vals:
  assumes "m_transactionMutex w"
  shows "\<exists>w'. endTransaction w = Inr w' \<and> vals w' = vals w
           \<and> next_addr w' = next_addr w \<and> transactions w' = transactions w - 1
           \<and> m_root w' = m_root w \<and> m_openEdits w' = []
           \<and> m_detachedRoot w' = payload (m_root w) \<and> \<not> m_transactionMutex w'"
  using assms by (simp add: endTransaction_def impl_endTransaction_def Let_def)

lemma beginTransaction_vals:
  assumes "\<not> m_transactionMutex w" and "deref (m_root w) w = Inr v"
  defines "p \<equiv> next_addr w"
  shows "\<exists>w'. beginTransaction n w = Inr (Some p, w')
           \<and> vals w' = (vals w)(p \<mapsto> v)
           \<and> next_addr w' = Suc p \<and> transactions w' = Suc (transactions w)
           \<and> m_root w' = \<lparr>qdata = Some p, payload = Some p\<rparr>
           \<and> m_openEdits w' = m_openEdits w @ [\<lparr>qdata = Some p, payload = Some p\<rparr>]
           \<and> m_detachedRoot w' = m_detachedRoot w \<and> m_transactionMutex w'"
  unfolding p_def by (simp add: beginTransaction_eq [OF assms(1,2)])

lemma Member_get_vals:
  assumes "\<not> detached m w" and "deref m w = Inr v"
  defines "p \<equiv> next_addr w"
  shows "\<exists>w'. Member_get n m w = Inr (Some p, \<lparr>qdata = Some p, payload = Some p\<rparr>, w')
           \<and> vals w' = (vals w)(p \<mapsto> v)
           \<and> next_addr w' = Suc p \<and> transactions w' = transactions w
           \<and> m_root w' = m_root w
           \<and> m_openEdits w' = m_openEdits w @ [\<lparr>qdata = Some p, payload = Some p\<rparr>]
           \<and> m_detachedRoot w' = m_detachedRoot w
           \<and> m_transactionMutex w' = m_transactionMutex w"
  unfolding p_def by (simp add: Member_get_shared_eq [OF assms(1,2)])

lemma store_ok_vals: "store_ok w \<Longrightarrow> vals w a = Some v \<Longrightarrow> a < next_addr w"
  by (rule ccontr) (simp add: store_ok_def vals_def)

section \<open>Deep copies\<close>

lemma tree_of_mono:
  "(\<And>a v. vals w a = Some v \<Longrightarrow> vals w' a = Some v) \<Longrightarrow>
     tree_of n w d = Some t \<Longrightarrow> tree_of n w' d = Some t"
  "(\<And>a v. vals w a = Some v \<Longrightarrow> vals w' a = Some v) \<Longrightarrow>
     trees_of n w ds = Some ts \<Longrightarrow> trees_of n w' ds = Some ts"
proof (induction n w d and n w ds arbitrary: t and ts rule: tree_of_trees_of.induct)
  case (1 w d)
  then show ?case by simp
next
  case (2 n w d)
  from 2(3) obtain v ts where v: "deref d w = Inr v" "trees_of n w (kids v) = Some ts"
      "t = Tree (plain v) ts"
    by (auto split: sum.splits option.splits)
  from v(1) 2(2) have "deref d w' = Inr v" by (auto simp: deref_vals)
  moreover have "trees_of n w' (kids v) = Some ts" using 2(1) [OF v(1) 2(2) v(2)] by simp
  ultimately show ?case using v(3) by simp
next
  case (3 n w)
  then show ?case by simp
next
  case (4 n w k ks)
  from 4(4) obtain t' ts' where s: "tree_of n w k = Some t'" "trees_of n w ks = Some ts'"
      "ts = t' # ts'"
    by (auto split: option.splits)
  have "tree_of n w' k = Some t'" using 4(1) [OF 4(3) s(1)] by simp
  moreover have "trees_of n w' ks = Some ts'" using 4(2) [OF s(1) 4(3) s(2)] by simp
  ultimately show ?case using s(3) by simp
qed

lemma extends_refl [simp]: "extends w w"
  by (simp add: extends_def)

lemma extends_trans: "extends w w1 \<Longrightarrow> extends w1 w2 \<Longrightarrow> extends w w2"
  by (auto simp: extends_def)

lemma extends_construct: "construct v w = (d, w') \<Longrightarrow> extends w w'"
  by (auto simp: construct_eq extends_def)

lemma store_ok_construct: "store_ok w \<Longrightarrow> construct v w = (d, w') \<Longrightarrow> store_ok w'"
  by (auto simp: construct_eq store_ok_def)

lemma extends_vals:
  assumes "extends w w'" and "store_ok w" and "vals w a = Some v"
  shows "vals w' a = Some v"
proof -
  have "a < next_addr w" by (rule store_ok_vals [OF assms(2,3)])
  with assms(1,3) show ?thesis by (simp add: extends_def vals_def)
qed

lemma vals_only_from: "vals (only_from a w) b = (if b < a then None else vals w b)"
  by (simp add: only_from_def vals_def)

lemma only_from_mono:
  assumes "extends w1 w2" and "store_ok w1" and "vals (only_from a w1) b = Some v"
  shows "vals (only_from a w2) b = Some v"
  using assms extends_vals [OF assms(1,2), of b v]
  by (auto simp: vals_only_from split: if_splits)

lemma only_from_le:
  assumes "a \<le> a'" and "vals (only_from a' w) b = Some v"
  shows "vals (only_from a w) b = Some v"
  using assms by (auto simp: vals_only_from split: if_splits)

lemma extends_deep: "extends w w' \<Longrightarrow> deep w' = deep w"
  by (simp add: extends_def deep_def)

lemma deep_copy:
  "deep w \<Longrightarrow> store_ok w \<Longrightarrow> tree_of n w other = Some t \<Longrightarrow>
     \<exists>a w'. Member_copy_ctor n other w = Inr (\<lparr>qdata = Some a, payload = Some a\<rparr>, w')
       \<and> extends w w' \<and> store_ok w' \<and> next_addr w \<le> a \<and> a < next_addr w'
       \<and> tree_of n (only_from (next_addr w) w') \<lparr>qdata = Some a, payload = Some a\<rparr> = Some t"
  "deep w \<Longrightarrow> store_ok w \<Longrightarrow> trees_of n w (kids v) = Some ts \<Longrightarrow>
     \<exists>ks' w'. T_copy_ctor n v w = Inr (Obj (plain v) ks', w')
       \<and> extends w w' \<and> store_ok w'
       \<and> trees_of n (only_from (next_addr w) w') ks' = Some ts"
  "deep w \<Longrightarrow> store_ok w \<Longrightarrow> trees_of n w ks = Some ts \<Longrightarrow>
     \<exists>ks' w'. copy_kids n ks w = Inr (ks', w')
       \<and> extends w w' \<and> store_ok w'
       \<and> trees_of n (only_from (next_addr w) w') ks' = Some ts"
proof (induction n other w and n v w and n ks w arbitrary: t and ts and ts
    rule: Member_copy_ctor_T_copy_ctor_copy_kids.induct)
  case (1 other w)
  then show ?case by simp
next
  case (2 n other w)
  from 2(4) obtain v ts where v: "deref other w = Inr v" "trees_of n w (kids v) = Some ts"
      "t = Tree (plain v) ts"
    by (auto split: sum.splits option.splits)
  from 2(1) [OF 2(2) v(1) 2(2,3) v(2)] obtain ks' w1 where
    c: "T_copy_ctor n v w = Inr (Obj (plain v) ks', w1)" "extends w w1" "store_ok w1"
       "trees_of n (only_from (next_addr w) w1) ks' = Some ts"
    by blast
  let ?a = "next_addr w1"
  let ?m = "\<lparr>qdata = Some ?a, payload = Some ?a\<rparr>"
  let ?w' = "w1\<lparr>blocks := (blocks w1)(?a \<mapsto> \<lparr>val = Obj (plain v) ks', use_count = 1\<rparr>),
                next_addr := Suc ?a\<rparr>"
  have con: "construct (Obj (plain v) ks') w1 = (?m, ?w')" by (simp add: construct_eq)
  have e1: "extends w1 ?w'" by (rule extends_construct [OF con])
  have run: "Member_copy_ctor (Suc n) other w = Inr (?m, ?w')"
    using 2(2) v(1) c(1) con by simp
  have ext: "extends w ?w'" by (rule extends_trans [OF c(2) e1])
  have ok: "store_ok ?w'" by (rule store_ok_construct [OF c(3) con])
  have le: "next_addr w \<le> ?a" using c(2) by (simp add: extends_def)
  have kids: "trees_of n (only_from (next_addr w) ?w') ks' = Some ts"
    by (rule tree_of_mono(2) [OF only_from_mono [OF e1 c(3)] c(4)])
  have "deref ?m (only_from (next_addr w) ?w') = Inr (Obj (plain v) ks')"
    using le by (simp add: deref_def only_from_def)
  with kids have "tree_of (Suc n) (only_from (next_addr w) ?w') ?m = Some t"
    by (simp add: v(3))
  with run ext ok le show ?case by (intro exI [of _ ?a] exI [of _ ?w']) simp
next
  case (3 n v w)
  from 3(1) [OF 3(2,3,4)] show ?case by (auto simp: T_copy_ctor.simps)
next
  case (4 n w)
  then show ?case by simp
next
  case (5 n k ks w)
  from 5(5) obtain t' ts' where s: "tree_of n w k = Some t'" "trees_of n w ks = Some ts'"
      "ts = t' # ts'"
    by (auto split: option.splits)
  from 5(1) [OF 5(3,4) s(1)] obtain a w1 where
    c1: "Member_copy_ctor n k w = Inr (\<lparr>qdata = Some a, payload = Some a\<rparr>, w1)"
        "extends w w1" "store_ok w1"
        "tree_of n (only_from (next_addr w) w1) \<lparr>qdata = Some a, payload = Some a\<rparr> = Some t'"
    by blast
  have d1: "deep w1" using 5(3) c1(2) by (simp add: extends_deep)
  have rest: "trees_of n w1 ks = Some ts'"
    by (rule tree_of_mono(2) [OF extends_vals [OF c1(2) 5(4)] s(2)])
  from 5(2) [OF c1(1) refl d1 c1(3) rest] obtain ks' w2 where
    c2: "copy_kids n ks w1 = Inr (ks', w2)" "extends w1 w2" "store_ok w2"
        "trees_of n (only_from (next_addr w1) w2) ks' = Some ts'"
    by blast
  have le: "next_addr w \<le> next_addr w1" using c1(2) by (simp add: extends_def)
  have hd: "tree_of n (only_from (next_addr w) w2) \<lparr>qdata = Some a, payload = Some a\<rparr> = Some t'"
    by (rule tree_of_mono(1) [OF only_from_mono [OF c2(2) c1(3)] c1(4)])
  have tl: "trees_of n (only_from (next_addr w) w2) ks' = Some ts'"
    by (rule tree_of_mono(2) [OF only_from_le [OF le] c2(4)])
  have "copy_kids n (k # ks) w = Inr (\<lparr>qdata = Some a, payload = Some a\<rparr> # ks', w2)"
    using c1(1) c2(1) by simp
  moreover have "extends w w2" by (rule extends_trans [OF c1(2) c2(2)])
  ultimately show ?case using c2(3) hd tl s(3) by auto
qed

section \<open>Use counts and copy-on-write\<close>

lemma counts_simps [simp]:
  "counts (w\<lparr>m_openEdits := es\<rparr>) = counts w"
  "counts (w\<lparr>next_addr := k\<rparr>) = counts w"
  by (simp_all add: counts_def fun_eq_iff)


lemma T_assign_leaf:
  assumes "vals w a = Some (Obj y [])" and "read_source s w = Inr (Obj x [])"
  shows "T_assign n a s w = put_plain a x w"
proof -
  from assms(1) obtain b where b: "blocks w a = Some b" "val b = Obj y []"
    by (auto simp: vals_def)
  then show ?thesis using assms(2) by (simp add: T_assign.simps put_plain_def)
qed











section \<open>Well-formed roots\<close>

lemma frame_valid: "frame w w' \<Longrightarrow> valid p w \<Longrightarrow> valid p w'"
  by (cases p) (auto simp: frame_def valid_def)

lemma frame_root_ok: "frame w w' \<Longrightarrow> root_ok w \<Longrightarrow> root_ok w'"
  unfolding root_ok_def
  using frame_valid [of w w'] frame_idle_inv [of w w'] by (auto simp: frame_def)

lemma present_share_all [simp]:
  "blocks (share_all ks w) a = None \<longleftrightarrow> blocks w a = None"
  by (induction ks arbitrary: w) simp_all

lemma store_ok_share_all [simp]: "store_ok (share_all ks w) = store_ok w"
  by (simp add: store_ok_def)

lemma present_fold_release [simp]:
  "blocks (fold (\<lambda>e. release (payload e)) es w) a = None \<longleftrightarrow> blocks w a = None"
  by (induction es arbitrary: w) simp_all

lemma store_ok_fold_release [simp]:
  "store_ok (fold (\<lambda>e. release (payload e)) es w) = store_ok w"
  by (simp add: store_ok_def)

lemma present_cow:
  "blocks (cow m v w) a = None \<longleftrightarrow> a \<noteq> next_addr w \<and> blocks w a = None"
  by (simp add: cow_def)

lemma store_ok_cow: "store_ok w \<Longrightarrow> store_ok (cow m v w)"
  by (simp add: store_ok_def present_cow)

lemma beginTransaction_root_ok:
  assumes "beginTransaction n w = Inr (p, w')" and "root_ok w"
  shows "root_ok w'"
proof -
  from assms(1) have free: "\<not> m_transactionMutex w"
    by (rule beginTransaction_result(1))
  from assms(1) free obtain v where v: "deref (m_root w) w = Inr v"
    by (auto simp: beginTransaction_def impl_beginTransaction_def deref_def
        split: sum.splits option.splits)
  let ?w0 = "w\<lparr>m_transactionMutex := True, transactions := Suc (transactions w)\<rparr>"
  from assms(1) have w': "w' = (cow (m_root w) v ?w0)
      \<lparr>m_root := \<lparr>qdata = Some (next_addr w), payload = Some (next_addr w)\<rparr>\<rparr>"
    by (auto simp: beginTransaction_eq [OF free v])
  have ok0: "store_ok ?w0" using assms(2) by (simp add: root_ok_def store_ok_def)
  have ok: "store_ok w'" using store_ok_cow [OF ok0, of "m_root w" v]
    by (simp add: w' store_ok_def)
  have inv: "idle_inv w'" using assms(2) free by (simp add: w' root_ok_def idle_inv_def)
  have new: "valid (qdata (m_root w')) w'" by (simp add: w' valid_def present_cow)
  have old: "valid (m_detachedRoot w') w'"
    using assms(2) by (cases "m_detachedRoot w") (auto simp: w' root_ok_def valid_def present_cow)
  from ok inv new old show ?thesis by (simp add: root_ok_def w')
qed

lemma endTransaction_root_ok:
  assumes "endTransaction w = Inr w'" and "root_ok w"
  shows "root_ok w'"
proof -
  from assms(1) have locked: "m_transactionMutex w" by (rule endTransaction_result(1))
  from assms(1) locked have w': "w' =
     ((fold (\<lambda>e. release (payload e)) (m_openEdits w)
         ((release (m_detachedRoot w) (share (payload (m_root w)) w))
            \<lparr>m_detachedRoot := payload (m_root w)\<rparr>))\<lparr>m_openEdits := []\<rparr>)
       \<lparr>transactions := transactions w - 1, m_transactionMutex := False\<rparr>"
    by (simp add: endTransaction_def impl_endTransaction_def Let_def)
  have ok: "store_ok w'" using assms(2) by (simp add: w' root_ok_def store_ok_def)
  have inv: "idle_inv w'" using assms(2) locked by (simp add: w' root_ok_def idle_inv_def)
  have r: "valid (qdata (m_root w')) w'"
    using assms(2) by (cases "qdata (m_root w)") (auto simp: w' root_ok_def valid_def)
  from ok inv r assms(2) show ?thesis by (simp add: root_ok_def w')
qed

lemma step_root_ok:
  assumes "step n x w = Inr w'" and "root_ok w"
  shows "root_ok w'"
proof (cases x)
  case Begin
  with assms show ?thesis by (auto split: sum.splits dest: beginTransaction_root_ok)
next
  case End
  with assms show ?thesis by (auto dest: endTransaction_root_ok)
next
  case Snapshot
  with assms show ?thesis
    by (auto simp: detachedPayload_def detachedRoot_def intro: frame_root_ok [OF frame_share])
next
  case (New v)
  with assms show ?thesis
    by (auto simp: Member_ctor_def intro: frame_root_ok [OF frame_construct] prod.collapse [symmetric])
next
  case (CopyOf m)
  with assms show ?thesis
    by (auto split: sum.splits dest!: frame_copy(1) intro: frame_root_ok)
next
  case (Get m)
  with assms show ?thesis
    by (auto split: sum.splits dest!: frame_Member_get intro: frame_root_ok)
next
  case (GetField a i)
  with assms show ?thesis
    by (auto split: sum.splits dest!: frame_get_field intro: frame_root_ok)
next
  case (AssignField a i other)
  with assms show ?thesis
    by (auto dest!: frame_assign_field intro: frame_root_ok)
next
  case (AssignValueField a i u)
  with assms show ?thesis
    by (auto dest!: frame_assign_value_field intro: frame_root_ok)
next
  case (Put a x)
  with assms show ?thesis
    by (auto dest!: frame_put_plain intro: frame_root_ok)
qed

lemma run_root_ok: "run n ops w = Inr w' \<Longrightarrow> root_ok w \<Longrightarrow> root_ok w'"
  by (induction ops arbitrary: w) (auto split: sum.splits dest: step_root_ok)

lemma new_root_ok:
  assumes "store_ok w0" and "transactions w0 = 0" and "NewObject_ctor v w0 = (obj, w1)"
  shows "root_ok (RootObject_ctor obj w1)"
  using assms
  by (auto simp: NewObject_ctor_def construct_eq RootObject_ctor_def root_ok_def idle_inv_def
      valid_def store_ok_def)

lemma valid_load: "valid p w \<longleftrightarrow> (\<exists>v. load p w = Inr v)"
  by (auto simp: valid_def load_def split: option.splits)

lemma reachable_idle_state:
  assumes "store_ok w0" and "transactions w0 = 0" and "NewObject_ctor v w0 = (obj, w1)"
    and "run n ops (RootObject_ctor obj w1) = Inr w" and "\<not> m_transactionMutex w"
  shows "m_openEdits w = []" and "store_ok w" and "\<exists>r. deref (m_root w) w = Inr r"
    and "m_detachedRoot w = qdata (m_root w)" and "\<exists>c. load (m_detachedRoot w) w = Inr c"
proof -
  have ok: "root_ok w"
    by (rule run_root_ok [OF assms(4) new_root_ok [OF assms(1,2,3)]])
  with assms(5) show "m_openEdits w = []" "store_ok w" "m_detachedRoot w = qdata (m_root w)"
    by (simp_all add: root_ok_def idle_inv_def)
  from ok show "\<exists>r. deref (m_root w) w = Inr r" "\<exists>c. load (m_detachedRoot w) w = Inr c"
    by (simp_all add: root_ok_def valid_load deref_load)
qed

section \<open>A registered handle stays registered until the transaction ends\<close>

lemma frame_isOpenEdit: "frame w w' \<Longrightarrow> isOpenEdit m w \<Longrightarrow> isOpenEdit m w'"
  by (auto simp: frame_def isOpenEdit_def list_ex_iff)

lemma frame_detached: "frame w w' \<Longrightarrow> detached m w \<Longrightarrow> detached m w'"
  by (auto simp: detached_def frame_deep dest: frame_isOpenEdit)


lemma step_frame:
  assumes "step n x w = Inr w'" and "x \<noteq> Begin" and "x \<noteq> End"
  shows "frame w w'"
proof (cases x)
  case Begin with assms show ?thesis by simp
next
  case End with assms show ?thesis by simp
next
  case Snapshot with assms show ?thesis
    by (auto simp: detachedPayload_def detachedRoot_def)
next
  case (New v) with assms show ?thesis
    by (auto simp: Member_ctor_def intro: frame_construct prod.collapse [symmetric])
next
  case (CopyOf m) with assms show ?thesis
    by (auto split: sum.splits dest: frame_copy(1))
next
  case (Get m) with assms show ?thesis
    by (auto split: sum.splits dest: frame_Member_get)
next
  case (GetField a i) with assms show ?thesis
    by (auto split: sum.splits dest: frame_get_field)
next
  case (AssignField a i other) with assms show ?thesis
    by (auto dest: frame_assign_field)
next
  case (AssignValueField a i u) with assms show ?thesis
    by (auto dest: frame_assign_value_field)
next
  case (Put a y) with assms show ?thesis
    by (auto dest: frame_put_plain)
qed

lemma registered_stays:
  assumes "isOpenEdit m w" and "step n x w = Inr w'" and "x \<noteq> End"
  shows "isOpenEdit m w'"
proof (cases "x = Begin")
  case False
  from step_frame [OF assms(2) False assms(3)] assms(1) show ?thesis
    by (rule frame_isOpenEdit)
next
  case True
  with assms(2) obtain p where b: "beginTransaction n w = Inr (p, w')"
    by (auto split: sum.splits)
  from beginTransaction_result(1) [OF b] b obtain v where
    "deref (m_root w) w = Inr v" "\<not> m_transactionMutex w"
    by (auto simp: beginTransaction_def impl_beginTransaction_def deref_def
        split: sum.splits option.splits)
  from beginTransaction_eq [OF this(2,1), of n] b assms(1) show ?thesis
    by (auto simp: isOpenEdit_def)
qed

section \<open>States that differ in a known part of the store\<close>

lemma new_handles_simps [simp]:
  "new_handles p p = []"
  "new_handles p (Suc p) = [\<lparr>qdata = Some p, payload = Some p\<rparr>]"
  by (simp_all add: new_handles_def)








lemma reach_allocated:
  "store_ok w \<Longrightarrow> b \<in> reach N w d \<Longrightarrow> b < next_addr w"
  "store_ok w \<Longrightarrow> b \<in> reaches N w ds \<Longrightarrow> b < next_addr w"
proof (induction N w d and N w ds rule: reach_reaches.induct)
  case (2 n w d)
  then show ?case
    by (auto simp: store_ok_def split: option.splits) (metis not_le_imp_less option.distinct(1))
qed auto




lemma fits_more_fuel:
  "fits n w m sh \<Longrightarrow> fits (Suc n) w m sh"
  "fits_list n w ks shs \<Longrightarrow> fits_list (Suc n) w ks shs"
  by (induction n w m sh and n w ks shs rule: fits_fits_list.induct)
     (auto split: option.splits)

section \<open>Copy assignment along the shape of the target\<close>




















section \<open>The value assignment operator\<close>





lemma Member_assign_lvalue_leaf:
  assumes "vals w a = Some (Obj y [])" and "qdata m = Some a"
  shows "Member_assign_lvalue n m (Obj x []) w = Member_assign_plain m x w"
proof -
  have rs: "read_source (Temp (Obj x [])) w = Inr (Obj x [])" by (simp add: read_source_def)
  have cp: "T_copy_ctor n (Obj x []) w = Inr (Obj x [], w)" by (simp add: T_copy_ctor.simps)
  show ?thesis using assms(2)
    by (simp add: Member_assign_lvalue_def Member_assign_plain_def Member_assign_value_def
        T_assign_leaf [OF assms(1) rs] cp)
qed



section \<open>Mutable access copies at most once per transaction\<close>

text \<open>
  Claim C1. Inside an active transaction, the first non-const \<^verbatim>\<open>get()\<close> on a shared
  Member allocates exactly one block, at an address not in use before and different from
  the shared block; the block holds a copy of the current value; the new handle is appended
  to the open-edits registry, which makes the Member detached; the returned pointer is the
  address of the new block. Every later \<^verbatim>\<open>get()\<close> on that Member, in any state whose
  registry still holds the handle, returns the same pointer and changes neither the Member
  nor the state; the registry holds the handle until \<^verbatim>\<open>endTransaction()\<close> (lemma
  \<open>registered_stays\<close>). Writing through the Member any number of times allocates one block
  in total.
\<close>

theorem C1_get_copies_once:
  assumes txn: "0 < transactions w"
    and shared: "\<not> detached m w"
    and cur: "deref m w = Inr v"
    and ok: "store_ok w"
  shows "\<exists>m' (w'::'a world). Member_get n m w = Inr (Some (next_addr w), m', w')
           \<and> blocks w (next_addr w) = None \<and> qdata m \<noteq> Some (next_addr w)
           \<and> next_addr w' = Suc (next_addr w)
           \<and> transactions w' = transactions w
           \<and> load (Some (next_addr w)) w' = Inr v
           \<and> qdata m' = Some (next_addr w)
           \<and> m_openEdits w' = m_openEdits w @ [m']
           \<and> detached m' w'
           \<and> (\<forall>k (w''::'a world). isOpenEdit m' w'' \<longrightarrow>
                 Member_get k m' w'' = Inr (Some (next_addr w), m', w''))
           \<and> (\<forall>x xs. \<exists>m'' w''. write_each n m (x # xs) w = Inr (m'', w'')
                 \<and> next_addr w'' = Suc (next_addr w))"
proof -
  let ?p = "next_addr w"
  let ?m = "\<lparr>qdata = Some ?p, payload = Some ?p\<rparr>"
  from Member_get_shared_result [OF shared cur, of n] obtain w' where
    w': "Member_get n m w = Inr (Some ?p, ?m, w')" "next_addr w' = Suc ?p"
        "load (Some ?p) w' = Inr v" "m_openEdits w' = m_openEdits w @ [?m]"
        "isOpenEdit ?m w'" "transactions w' = transactions w"
    by blast
  have again: "\<forall>k (w''::'a world). isOpenEdit ?m w'' \<longrightarrow> Member_get k ?m w'' = Inr (Some ?p, ?m, w'')"
    by (simp add: Member_get_detached detached_def)
  have many: "\<exists>m'' w''. write_each n m (x # xs) w = Inr (m'', w'') \<and> next_addr w'' = Suc ?p"
    for x xs
  proof -
    from w'(3) obtain b where b: "blocks w' ?p = Some b" "val b = v"
      by (auto simp: load_def split: option.splits)
    let ?w1 = "w'\<lparr>blocks := (blocks w')(?p \<mapsto> b\<lparr>val := Obj x (kids (val b))\<rparr>)\<rparr>"
    have 1: "isOpenEdit ?m ?w1" using w'(5) by (simp add: isOpenEdit_def)
    have 2: "load (Some ?p) ?w1 = Inr (Obj x (kids v))" using b by (simp add: load_def)
    from write_each_detached [OF 1 _ 2, of n xs] obtain w'' where
      "write_each n ?m xs ?w1 = Inr (?m, w'')" "next_addr w'' = next_addr ?w1"
      by auto
    then show ?thesis using w'(1,2) b by (simp add: put_plain_ok)
  qed
  show ?thesis
    using w' again many store_ok_fresh [OF ok] store_ok_deref [OF ok cur]
    by (intro exI [of _ ?m] exI [of _ w']) (simp add: detached_def)
qed

theorem C1_get_copies_once_witness:
  "0 < transactions nested_txn_world \<and> \<not> detached txn_xa nested_txn_world
   \<and> deref txn_xa nested_txn_world = Inr (Obj 1 []) \<and> store_ok nested_txn_world
   \<and> (\<exists>m' w'. Member_get 0 txn_xa nested_txn_world = Inr (Some 7, m', w')
         \<and> next_addr w' = 8 \<and> load (Some 7) w' = Inr (Obj 1 [])
         \<and> Member_get 0 m' w' = Inr (Some 7, m', w'))"
proof -
  have h1: "0 < transactions nested_txn_world" by (simp add: nested_txn_facts)
  note h2 = nested_txn_facts(6) and h3 = nested_txn_facts(8) and h4 = nested_txn_facts(3)
  from C1_get_copies_once [OF h1 h2 h3 h4, of 0] obtain m' w' where
    r: "Member_get 0 txn_xa nested_txn_world = Inr (Some 7, m', w')"
       "next_addr w' = 8" "transactions w' = 1" "load (Some 7) w' = Inr (Obj 1 [])"
       "detached m' w'"
       "\<forall>k (w''::int world). isOpenEdit m' w'' \<longrightarrow> Member_get k m' w'' = Inr (Some 7, m', w'')"
    unfolding nested_txn_facts(1,2) by auto
  from r(3,5) have "isOpenEdit m' w'" by (simp add: detached_def deep_def)
  with r(6) have "Member_get 0 m' w' = Inr (Some 7, m', w')" by blast
  with r h1 h2 h3 h4 show ?thesis by blast
qed

section \<open>Copy construction: deep outside a transaction, aliasing inside\<close>

text \<open>
  Claim C2. With the thread's transaction-depth counter at zero, copy-constructing a Member
  from a source whose tree is well formed (within the depth bound) succeeds and yields a
  handle to a block at an address that was not in use and is not the source's block; all
  blocks that existed are unchanged, values and use counts, as are the registry and the
  root; the copy, read in the newly allocated blocks alone, has the value of the source,
  which still has it too. With the counter nonzero, the new Member has the source's handle;
  nothing is allocated, the registry is unchanged, every value is unchanged, and the only
  change is that the use count of the source's block is one higher.
\<close>

theorem C2_copy_construction:
  "(transactions w = 0 \<and> store_ok w \<and> tree_of n w other = Some t \<longrightarrow>
      (\<exists>a w'. Member_copy_ctor n other w = Inr (\<lparr>qdata = Some a, payload = Some a\<rparr>, w')
         \<and> blocks w a = None \<and> qdata other \<noteq> Some a
         \<and> next_addr w \<le> a \<and> a < next_addr w'
         \<and> extends w w'
         \<and> tree_of n (only_from (next_addr w) w') \<lparr>qdata = Some a, payload = Some a\<rparr> = Some t
         \<and> tree_of n w' other = Some t))
   \<and> (transactions w \<noteq> 0 \<longrightarrow>
      Member_copy_ctor n other w = Inr (other, share (payload other) w)
      \<and> next_addr (share (payload other) w) = next_addr w
      \<and> m_openEdits (share (payload other) w) = m_openEdits w
      \<and> vals (share (payload other) w) = vals w
      \<and> (\<forall>a b. payload other = Some a \<and> blocks w a = Some b \<longrightarrow>
            blocks (share (payload other) w) a = Some (b\<lparr>use_count := Suc (use_count b)\<rparr>))
      \<and> (\<forall>a. payload other \<noteq> Some a \<longrightarrow> blocks (share (payload other) w) a = blocks w a))"
proof (intro conjI impI)
  assume h: "transactions w = 0 \<and> store_ok w \<and> tree_of n w other = Some t"
  then have d: "deep w" and ok: "store_ok w" and tr: "tree_of n w other = Some t"
    by (simp_all add: deep_def)
  from deep_copy(1) [OF d ok tr] obtain a w' where
    c: "Member_copy_ctor n other w = Inr (\<lparr>qdata = Some a, payload = Some a\<rparr>, w')"
       "extends w w'" "store_ok w'" "next_addr w \<le> a" "a < next_addr w'"
       "tree_of n (only_from (next_addr w) w') \<lparr>qdata = Some a, payload = Some a\<rparr> = Some t"
    by blast
  have fresh: "blocks w a = None" using ok c(4) by (simp add: store_ok_def)
  from tr obtain v where "deref other w = Inr v"
    by (cases n) (auto split: sum.splits)
  with fresh have ne: "qdata other \<noteq> Some a" by (auto simp: deref_def)
  have src: "tree_of n w' other = Some t"
    by (rule tree_of_mono(1) [OF extends_vals [OF c(2) ok] tr])
  from c fresh ne src
  show "\<exists>a w'. Member_copy_ctor n other w = Inr (\<lparr>qdata = Some a, payload = Some a\<rparr>, w')
         \<and> blocks w a = None \<and> qdata other \<noteq> Some a
         \<and> next_addr w \<le> a \<and> a < next_addr w'
         \<and> extends w w'
         \<and> tree_of n (only_from (next_addr w) w') \<lparr>qdata = Some a, payload = Some a\<rparr> = Some t
         \<and> tree_of n w' other = Some t"
    by blast
next
  assume "transactions w \<noteq> 0"
  then show "Member_copy_ctor n other w = Inr (other, share (payload other) w)"
    by (simp add: Member_copy_ctor_shallow deep_def)
qed (auto simp: blocks_share)

theorem C2_copy_construction_witness:
  "transactions pair_root_world = 0 \<and> store_ok pair_root_world
   \<and> tree_of 2 pair_root_world (m_root pair_root_world) = Some (Tree 0 [Tree 1 [], Tree 2 []])
   \<and> (\<exists>a w'. Member_copy_ctor 2 (m_root pair_root_world) pair_root_world
               = Inr (\<lparr>qdata = Some a, payload = Some a\<rparr>, w')
         \<and> 3 \<le> a
         \<and> tree_of 2 (only_from 3 w') \<lparr>qdata = Some a, payload = Some a\<rparr>
             = Some (Tree 0 [Tree 1 [], Tree 2 []]))
   \<and> transactions nested_txn_world \<noteq> 0
   \<and> Member_copy_ctor 0 txn_y nested_txn_world = Inr (txn_y, share (Some 3) nested_txn_world)
   \<and> blocks (share (Some 3) nested_txn_world) 3
       = Some \<lparr>val = Obj 20 [txn_ya], use_count = 3\<rparr>"
proof -
  have h1: "transactions pair_root_world = 0" by (simp add: pair_root_world_val)
  have h2: "store_ok pair_root_world" by (simp add: pair_root_world_val store_ok_def)
  have h3: "tree_of 2 pair_root_world (m_root pair_root_world)
      = Some (Tree 0 [Tree 1 [], Tree 2 []])"
    by (simp add: pair_root_world_val deref_def numeral_2_eq_2)
  have n: "next_addr pair_root_world = 3" by (simp add: pair_root_world_val)
  from C2_copy_construction [of pair_root_world 2 "m_root pair_root_world"
      "Tree 0 [Tree 1 [], Tree 2 []]"] h1 h2 h3
  have a: "\<exists>a w'. Member_copy_ctor 2 (m_root pair_root_world) pair_root_world
               = Inr (\<lparr>qdata = Some a, payload = Some a\<rparr>, w')
         \<and> 3 \<le> a
         \<and> tree_of 2 (only_from 3 w') \<lparr>qdata = Some a, payload = Some a\<rparr>
             = Some (Tree 0 [Tree 1 [], Tree 2 []])"
    unfolding n by blast
  have h4: "transactions nested_txn_world \<noteq> 0" by (simp add: nested_txn_facts)
  have p: "payload txn_y = Some 3" by (simp add: txn_y_def)
  have b0: "blocks nested_txn_world 3 = Some \<lparr>val = Obj 20 [txn_ya], use_count = 2\<rparr>"
    by (simp add: nested_txn_world_def txn_ya_def)
  from C2_copy_construction [of nested_txn_world 0 txn_y] h4 p b0
  have b: "Member_copy_ctor 0 txn_y nested_txn_world = Inr (txn_y, share (Some 3) nested_txn_world)"
    and c: "blocks (share (Some 3) nested_txn_world) 3
       = Some \<lparr>val = Obj 20 [txn_ya], use_count = 3\<rparr>"
    by (simp_all add: numeral_3_eq_3 numeral_2_eq_2)
  from h1 h2 h3 a h4 b c show ?thesis by blast
qed

section \<open>Copy assignment to a Member\<close>





section \<open>Beginning a transaction\<close>

text \<open>
  Claim C4. On an idle root (lock free, registry empty) with a valid root handle and a valid
  committed snapshot, \<^verbatim>\<open>beginTransaction()\<close> takes the lock, increments the thread's
  counter, allocates one block at an unused address holding a copy of the root's current
  value, makes it the root's handle and the only (hence first) entry of the open-edits
  registry, and returns its address. That address is neither the previous root block nor the
  committed block; the committed handle and the committed value stay as they were.
  The assumptions hold in every idle state that is reached from a newly constructed root
  (lemma \<open>reachable_idle_state\<close>).
\<close>

theorem C4_beginTransaction:
  assumes free: "\<not> m_transactionMutex w"
    and idle: "m_openEdits w = []"
    and cur: "deref (m_root w) w = Inr v"
    and committed: "load (m_detachedRoot w) w = Inr c"
    and ok: "store_ok w"
  shows "\<exists>w'. beginTransaction n w = Inr (Some (next_addr w), w')
           \<and> m_transactionMutex w' \<and> transactions w' = Suc (transactions w)
           \<and> blocks w (next_addr w) = None \<and> next_addr w' = Suc (next_addr w)
           \<and> load (Some (next_addr w)) w' = Inr v
           \<and> qdata (m_root w') = Some (next_addr w)
           \<and> m_openEdits w' = [m_root w']
           \<and> detached (m_root w') w'
           \<and> qdata (m_root w) \<noteq> Some (next_addr w)
           \<and> m_detachedRoot w' = m_detachedRoot w
           \<and> m_detachedRoot w \<noteq> Some (next_addr w)
           \<and> load (m_detachedRoot w) w' = Inr c"
proof -
  let ?p = "next_addr w"
  let ?w0 = "w\<lparr>m_transactionMutex := True, transactions := Suc (transactions w)\<rparr>"
  let ?w' = "(cow (m_root w) v ?w0)\<lparr>m_root := \<lparr>qdata = Some ?p, payload = Some ?p\<rparr>\<rparr>"
  have b: "beginTransaction n w = Inr (Some ?p, ?w')"
    by (rule beginTransaction_eq [OF free cur])
  have fresh: "blocks w ?p = None" by (rule store_ok_fresh [OF ok])
  have old: "qdata (m_root w) \<noteq> Some ?p" by (rule store_ok_deref [OF ok cur])
  from committed fresh have ne: "m_detachedRoot w \<noteq> Some ?p"
    by (auto simp: load_def split: option.splits)
  have new: "load (Some ?p) ?w' = Inr v"
    by (simp add: load_alt val_cow)
  have keep: "load (m_detachedRoot w) ?w' = Inr c"
    using committed ne by (cases "m_detachedRoot w") (simp_all add: load_alt val_cow)
  have reg: "m_openEdits ?w' = [m_root ?w']" using idle by simp
  have det: "detached (m_root ?w') ?w'" by (simp add: detached_def isOpenEdit_def)
  show ?thesis
    using b fresh old ne new keep reg det by (intro exI [of _ ?w']) simp
qed

theorem C4_beginTransaction_witness:
  "\<not> m_transactionMutex leaf_root_world \<and> m_openEdits leaf_root_world = []
   \<and> deref (m_root leaf_root_world) leaf_root_world = Inr (Obj 7 [])
   \<and> load (m_detachedRoot leaf_root_world) leaf_root_world = Inr (Obj 7 [])
   \<and> store_ok leaf_root_world
   \<and> (\<exists>w'. beginTransaction 0 leaf_root_world = Inr (Some 1, w')
         \<and> load (Some 1) w' = Inr (Obj 7 []) \<and> m_openEdits w' = [m_root w']
         \<and> m_detachedRoot w' = Some 0)"
proof -
  have h1: "\<not> m_transactionMutex leaf_root_world" by (simp add: leaf_root_world_val)
  have h2: "m_openEdits leaf_root_world = []" by (simp add: leaf_root_world_val)
  have h3: "deref (m_root leaf_root_world) leaf_root_world = Inr (Obj 7 [])"
    by (simp add: leaf_root_world_val deref_def)
  have h4: "load (m_detachedRoot leaf_root_world) leaf_root_world = Inr (Obj 7 [])"
    by (simp add: leaf_root_world_val load_def)
  have h5: "store_ok leaf_root_world" by (simp add: leaf_root_world_val store_ok_def)
  have n: "next_addr leaf_root_world = 1" "m_detachedRoot leaf_root_world = Some 0"
    by (simp_all add: leaf_root_world_val)
  from C4_beginTransaction [OF h1 h2 h3 h4 h5, of 0] obtain w' where
    "beginTransaction 0 leaf_root_world = Inr (Some 1, w')"
    "load (Some 1) w' = Inr (Obj 7 [])" "m_openEdits w' = [m_root w']"
    "m_detachedRoot w' = Some 0"
    unfolding n by auto
  with h1 h2 h3 h4 h5 show ?thesis by blast
qed

section \<open>Untouched siblings are shared between consecutive snapshots\<close>

text \<open>
  Claim C5. The root is idle and its committed snapshot is the root block, which holds the
  nested Members \<open>ks\<close>. One transaction takes mutable access to the Member in field \<open>i\<close>
  only, writes \<open>x\<close> there and commits. The new snapshot holds the same struct with the same
  handles in every field but \<open>i\<close>; field \<open>i\<close> has a new handle, whose block holds the written
  value; every block that existed before the transaction still holds its old value, so the
  previous snapshot is intact and the untouched siblings read as before. For the root
  \<^verbatim>\<open>{a: 1, b: 2}\<close> and the write \<^verbatim>\<open>a = 5\<close> this is the witness below. The assumptions
  on the root hold in every idle state that is reached from a newly constructed root (lemma
  \<open>reachable_idle_state\<close>).
\<close>

theorem C5_sibling_sharing:
  assumes free: "\<not> m_transactionMutex w"
    and idle: "m_openEdits w = []"
    and same: "m_detachedRoot w = qdata (m_root w)"
    and root: "deref (m_root w) w = Inr (Obj r ks)"
    and i: "i < length ks"
    and a: "deref (ks ! i) w = Inr va"
    and ok: "store_ok w"
  shows "\<exists>w' ka. edit_field n i x w = Inr w'
           \<and> load (m_detachedRoot w') w' = Inr (Obj r (ks[i := ka]))
           \<and> load (qdata ka) w' = Inr (Obj x (kids va))
           \<and> (\<forall>j < length ks. j \<noteq> i \<longrightarrow> kids (Obj r (ks[i := ka])) ! j = ks ! j)
           \<and> (\<forall>b < next_addr w. vals w' b = vals w b)
           \<and> load (m_detachedRoot w) w' = Inr (Obj r ks)
           \<and> m_detachedRoot w' \<noteq> m_detachedRoot w
           \<and> qdata ka \<noteq> qdata (ks ! i)
           \<and> \<not> m_transactionMutex w' \<and> m_openEdits w' = []"
proof -
  let ?p = "next_addr w"
  let ?q = "Suc ?p"
  let ?R = "\<lparr>qdata = Some ?p, payload = Some ?p\<rparr>"
  let ?K = "\<lparr>qdata = Some ?q, payload = Some ?q\<rparr>"
  from root obtain ra where ra: "qdata (m_root w) = Some ra" "vals w ra = Some (Obj r ks)"
    by (auto simp: deref_vals)
  from a obtain ka where ka: "qdata (ks ! i) = Some ka" "vals w ka = Some va"
    by (auto simp: deref_vals)
  have ra_lt: "ra < ?p" by (rule store_ok_vals [OF ok ra(2)])
  have ka_lt: "ka < ?p" by (rule store_ok_vals [OF ok ka(2)])
  \<comment> \<open>\<^verbatim>\<open>beginTransaction\<close>\<close>
  from beginTransaction_vals [OF free root, of n] obtain w1 where
    w1: "beginTransaction n w = Inr (Some ?p, w1)" "vals w1 = (vals w)(?p \<mapsto> Obj r ks)"
        "next_addr w1 = ?q" "transactions w1 = Suc (transactions w)" "m_root w1 = ?R"
        "m_openEdits w1 = [?R]" "m_detachedRoot w1 = m_detachedRoot w"
        "m_transactionMutex w1"
    using idle by auto
  \<comment> \<open>\<^verbatim>\<open>r->field.get()\<close>\<close>
  have f: "field ?p i w1 = Inr (ks ! i)"
    using i by (simp add: field_vals [where v = "Obj r ks"] w1(2))
  have sh: "\<not> detached (ks ! i) w1"
    using ka(1) ka_lt by (simp add: detached_def deep_def isOpenEdit_def w1)
  have d: "deref (ks ! i) w1 = Inr va"
    using ka ka_lt by (simp add: deref_eq_vals w1(2))
  from Member_get_vals [OF sh d, of n] obtain w2 where
    w2: "Member_get n (ks ! i) w1 = Inr (Some ?q, ?K, w2)" "vals w2 = (vals w1)(?q \<mapsto> va)"
        "next_addr w2 = Suc ?q" "m_root w2 = ?R" "m_openEdits w2 = [?R, ?K]"
        "m_detachedRoot w2 = m_detachedRoot w" "m_transactionMutex w2"
    by (auto simp: w1)
  have v2: "vals w2 ?p = Some (Obj r ks)" by (simp add: w2(2) w1(2))
  from put_field_vals [OF v2, of i ?K] i obtain w3 where
    w3: "put_field ?p i ?K w2 = Inr w3"
        "vals w3 = (vals w2)(?p \<mapsto> Obj r (ks[i := ?K]))"
        "m_root w3 = ?R" "m_detachedRoot w3 = m_detachedRoot w" "m_transactionMutex w3"
    by (auto simp: w2)
  have g: "get_field n ?p i w1 = Inr (Some ?q, w3)"
    by (simp add: get_field_def f w2(1) w3(1))
  \<comment> \<open>\<^verbatim>\<open>*p = x\<close>\<close>
  have v3: "vals w3 ?q = Some va" by (simp add: w3(2) w2(2))
  from put_plain_vals [OF v3, of x] obtain w4 where
    w4: "put_plain ?q x w3 = Inr w4" "vals w4 = (vals w3)(?q \<mapsto> Obj x (kids va))"
        "m_root w4 = ?R" "m_detachedRoot w4 = m_detachedRoot w" "m_transactionMutex w4"
    by (auto simp: w3)
  \<comment> \<open>\<^verbatim>\<open>endTransaction\<close>\<close>
  from endTransaction_vals [OF w4(5)] obtain w' where
    w': "endTransaction w4 = Inr w'" "vals w' = vals w4" "m_openEdits w' = []"
        "m_detachedRoot w' = Some ?p" "\<not> m_transactionMutex w'"
    by (auto simp: w4)
  have run: "edit_field n i x w = Inr w'"
    by (simp add: edit_field_def w1(1) g w4(1) w'(1))
  have all: "vals w' = (vals w)(?p \<mapsto> Obj r (ks[i := ?K]), ?q \<mapsto> Obj x (kids va))"
    by (auto simp: w'(2) w4(2) w3(2) w2(2) w1(2) fun_eq_iff)
  have new: "load (m_detachedRoot w') w' = Inr (Obj r (ks[i := ?K]))"
    by (simp add: w'(4) load_Some_vals all)
  have newa: "load (qdata ?K) w' = Inr (Obj x (kids va))"
    by (simp add: load_Some_vals all)
  have sib: "\<forall>j < length ks. j \<noteq> i \<longrightarrow> kids (Obj r (ks[i := ?K])) ! j = ks ! j"
    by simp
  have old: "\<forall>b < ?p. vals w' b = vals w b" by (simp add: all)
  have prior: "load (m_detachedRoot w) w' = Inr (Obj r ks)"
    using ra ra_lt by (simp add: same load_Some_vals all)
  have ne1: "m_detachedRoot w' \<noteq> m_detachedRoot w" using ra ra_lt by (simp add: same w'(4))
  have ne2: "qdata ?K \<noteq> qdata (ks ! i)" using ka ka_lt by simp
  from run new newa sib old prior ne1 ne2 w'(3,5) show ?thesis by blast
qed

theorem C5_sibling_sharing_witness:
  "\<not> m_transactionMutex pair_root_world \<and> m_openEdits pair_root_world = []
   \<and> m_detachedRoot pair_root_world = qdata (m_root pair_root_world)
   \<and> deref (m_root pair_root_world) pair_root_world
       = Inr (Obj 0 [\<lparr>qdata = Some 0, payload = Some 0\<rparr>, \<lparr>qdata = Some 1, payload = Some 1\<rparr>])
   \<and> deref \<lparr>qdata = Some 0, payload = Some 0\<rparr> pair_root_world = Inr (Obj 1 [])
   \<and> deref \<lparr>qdata = Some 1, payload = Some 1\<rparr> pair_root_world = Inr (Obj 2 [])
   \<and> store_ok pair_root_world
   \<and> (\<exists>w' ka. edit_field 0 0 5 pair_root_world = Inr w'
         \<and> load (m_detachedRoot w') w' = Inr (Obj 0 [ka, \<lparr>qdata = Some 1, payload = Some 1\<rparr>])
         \<and> load (qdata ka) w' = Inr (Obj 5 [])
         \<and> load (Some 1) w' = Inr (Obj 2 []))"
proof -
  let ?a = "\<lparr>qdata = Some 0, payload = Some 0\<rparr>"
  let ?b = "\<lparr>qdata = Some 1, payload = Some 1\<rparr>"
  have h1: "\<not> m_transactionMutex pair_root_world" by (simp add: pair_root_world_val)
  have h2: "m_openEdits pair_root_world = []" by (simp add: pair_root_world_val)
  have h3: "m_detachedRoot pair_root_world = qdata (m_root pair_root_world)"
    by (simp add: pair_root_world_val)
  have h4: "deref (m_root pair_root_world) pair_root_world = Inr (Obj 0 [?a, ?b])"
    by (simp add: pair_root_world_val deref_def)
  have h5: "(0::nat) < length [?a, ?b]" by simp
  have h6: "deref ([?a, ?b] ! 0) pair_root_world = Inr (Obj 1 [])"
    by (simp add: pair_root_world_val deref_def)
  have h6': "deref ?a pair_root_world = Inr (Obj 1 [])" using h6 by simp
  have h7: "deref ?b pair_root_world = Inr (Obj 2 [])"
    by (simp add: pair_root_world_val deref_def)
  have h8: "store_ok pair_root_world" by (simp add: pair_root_world_val store_ok_def)
  have b: "vals pair_root_world 1 = Some (Obj 2 [])"
    by (simp add: pair_root_world_val vals_def)
  have n: "(1::nat) < next_addr pair_root_world" by (simp add: pair_root_world_val)
  from C5_sibling_sharing [OF h1 h2 h3 h4 h5 h6 h8, of 0 5] obtain w' ka where
    r: "edit_field 0 0 5 pair_root_world = Inr w'"
       "load (m_detachedRoot w') w' = Inr (Obj 0 ([?a, ?b][0 := ka]))"
       "load (qdata ka) w' = Inr (Obj 5 (kids (Obj (1::int) [])))"
       "\<forall>b < next_addr pair_root_world. vals w' b = vals pair_root_world b"
    by blast
  from r(4) n b have "vals w' 1 = Some (Obj 2 [])" by simp
  then have "load (Some 1) w' = Inr (Obj 2 [])" by (simp add: load_Some_vals)
  with r(1,2,3) have "\<exists>w' ka. edit_field 0 0 5 pair_root_world = Inr w'
         \<and> load (m_detachedRoot w') w' = Inr (Obj 0 [ka, ?b])
         \<and> load (qdata ka) w' = Inr (Obj 5 [])
         \<and> load (Some 1) w' = Inr (Obj 2 [])"
    by auto
  with h1 h2 h3 h4 h6' h7 h8 show ?thesis by blast
qed

section \<open>Members constructed from constructor arguments\<close>

text \<open>
  Claim C7, amended. Constructing a Member from constructor arguments allocates a block at
  the next address. With no active transaction the Member is detached, and mutable
  access returns the address of that block and allocates nothing. Inside a transaction the
  constructor does not register the block, so unless the address is already in the registry
  the Member is not detached: \<^verbatim>\<open>get()\<close> allocates one more block and returns the address
  of the copy.
\<close>

theorem C7_fresh_member_amended:
  "(deep w \<longrightarrow>
      fresh_then_get n v w = Inr (Some (next_addr w), Some (next_addr w), 0))
   \<and> (\<not> deep w \<and> \<not> list_ex (\<lambda>e. qdata e = Some (next_addr w)) (m_openEdits w) \<longrightarrow>
      fresh_then_get n v w = Inr (Some (next_addr w), Some (Suc (next_addr w)), 1))"
proof (intro conjI impI)
  assume "deep w"
  then show "fresh_then_get n v w = Inr (Some (next_addr w), Some (next_addr w), 0)"
    by (simp add: fresh_then_get_def Member_ctor_def construct_eq Member_get_detached
        detached_def deep_def)
next
  let ?m = "\<lparr>qdata = Some (next_addr w), payload = Some (next_addr w)\<rparr>"
  let ?w1 = "w\<lparr>blocks := (blocks w)(next_addr w \<mapsto> \<lparr>val = v, use_count = Suc 0\<rparr>),
                next_addr := Suc (next_addr w)\<rparr>"
  assume a: "\<not> deep w \<and> \<not> list_ex (\<lambda>e. qdata e = Some (next_addr w)) (m_openEdits w)"
  then have nd: "\<not> detached ?m ?w1" by (simp add: detached_def deep_def isOpenEdit_def)
  have d: "deref ?m ?w1 = Inr v" by (simp add: deref_def)
  show "fresh_then_get n v w = Inr (Some (next_addr w), Some (Suc (next_addr w)), 1)"
    by (simp add: fresh_then_get_def Member_ctor_def construct_eq
        Member_get_shared_eq [OF nd d])
qed

theorem C7_fresh_member_amended_witness:
  "deep (empty_world :: int world) \<and>
   fresh_then_get 0 (Obj 3 []) (empty_world :: int world) = Inr (Some 0, Some 0, 0) \<and>
   \<not> deep nested_txn_world \<and>
   \<not> list_ex (\<lambda>e. qdata e = Some (next_addr nested_txn_world)) (m_openEdits nested_txn_world) \<and>
   fresh_then_get 0 (Obj 3 []) nested_txn_world = Inr (Some 7, Some 8, 1)"
proof -
  have h1: "deep (empty_world :: int world)" by (simp add: deep_def empty_world_def)
  have h2: "\<not> deep nested_txn_world \<and>
     \<not> list_ex (\<lambda>e. qdata e = Some (next_addr nested_txn_world)) (m_openEdits nested_txn_world)"
    by (simp add: nested_txn_world_def deep_def)
  have n1: "next_addr (empty_world :: int world) = 0" by (simp add: empty_world_def)
  from C7_fresh_member_amended [of "empty_world :: int world" 0 "Obj 3 []"] h1 n1
  have a: "fresh_then_get 0 (Obj 3 []) (empty_world :: int world) = Inr (Some 0, Some 0, 0)"
    by simp
  from C7_fresh_member_amended [of nested_txn_world 0 "Obj 3 []"] h2 nested_txn_facts(1)
  have b: "fresh_then_get 0 (Obj 3 []) nested_txn_world = Inr (Some 7, Some 8, 1)"
    by simp
  from h1 h2 a b show ?thesis by simp
qed

theorem C7_fresh_member_in_transaction_counterexample:
  "fresh_then_get 0 (Obj 3 []) nested_txn_world = Inr (Some 7, Some 8, 1)"
  by (simp add: fresh_then_get_def Member_ctor_def construct_eq Member_get_def detached_def
      deep_def isOpenEdit_def deref_def detachWith_def nested_txn_world_def Let_def
      T_copy_ctor.simps)

section \<open>Round trip through a new root\<close>

text \<open>
  Claim C8. A \<^verbatim>\<open>NewObject\<close> is constructed holding \<open>v\<close>, a \<^verbatim>\<open>RootObject\<close> is constructed
  from it and \<^verbatim>\<open>detachedPayload()\<close> is called at once, with no transaction in between:
  the snapshot points at the block that was allocated for the \<^verbatim>\<open>NewObject\<close> and a reader
  finds \<open>v\<close> there.
\<close>

theorem C8_round_trip:
  "\<exists>obj w1 p w3. NewObject_ctor v w = (obj, w1)
     \<and> detachedPayload (RootObject_ctor obj w1) = (p, w3)
     \<and> p = Some (next_addr w) \<and> load p w3 = Inr v"
  by (simp add: NewObject_ctor_def construct_eq detachedPayload_def detachedRoot_def
      RootObject_ctor_def load_alt)

section \<open>The open-edits registry is empty between transactions\<close>

text \<open>
  Claim C9. In every state that is reached from a newly constructed root (on a thread with
  no transaction open) by any sequence of operations of the interface: if the root is idle
  (lock free) the open-edits registry is empty; \<^verbatim>\<open>endTransaction()\<close> leaves the root idle
  with an empty registry; and from an idle state every operation other than
  \<^verbatim>\<open>beginTransaction()\<close> leaves the root idle and the registry empty, so entries are only
  added between a \<^verbatim>\<open>beginTransaction()\<close> and its \<^verbatim>\<open>endTransaction()\<close>.
\<close>

theorem C9_registry_empty_when_idle:
  assumes "transactions w0 = 0" and "run n ops (RootObject_ctor obj w0) = Inr w"
  shows "(\<not> m_transactionMutex w \<longrightarrow> m_openEdits w = [])
       \<and> (\<forall>w'. endTransaction w = Inr w' \<longrightarrow> \<not> m_transactionMutex w' \<and> m_openEdits w' = [])
       \<and> (\<forall>x w'. \<not> m_transactionMutex w \<and> x \<noteq> Begin \<and> step n x w = Inr w' \<longrightarrow>
             \<not> m_transactionMutex w' \<and> m_openEdits w' = [])"
proof -
  have inv: "idle_inv w"
    using run_idle_inv [OF assms(2) RootObject_ctor_idle_inv [OF assms(1)]] .
  have 1: "\<not> m_transactionMutex w \<longrightarrow> m_openEdits w = []"
    using inv by (simp add: idle_inv_def)
  have 2: "\<not> m_transactionMutex w' \<and> m_openEdits w' = []" if "endTransaction w = Inr w'" for w'
    using endTransaction_result(2,3) [OF that] by simp
  have 3: "\<not> m_transactionMutex w' \<and> m_openEdits w' = []"
    if "\<not> m_transactionMutex w \<and> x \<noteq> Begin \<and> step n x w = Inr w'" for x w'
  proof -
    from that have st: "step n x w = Inr w'" and free: "\<not> m_transactionMutex w"
      and nb: "x \<noteq> Begin" by simp_all
    have inv': "idle_inv w'" by (rule step_idle_inv [OF st inv])
    have "m_transactionMutex w' = m_transactionMutex w"
    proof (cases x)
      case Begin with nb show ?thesis by simp
    next
      case End with st free show ?thesis
        using endTransaction_result(1) [of w w'] by simp
    next
      case Snapshot with st show ?thesis
        by (auto simp: detachedPayload_def detachedRoot_def)
    next
      case (New v) with st show ?thesis by (auto simp: Member_ctor_def construct_eq)
    next
      case (CopyOf m) with st show ?thesis
        by (auto simp: frame_def split: sum.splits dest!: frame_copy(1))
    next
      case (Get m) with st show ?thesis
        by (auto simp: frame_def split: sum.splits dest!: frame_Member_get)
    next
      case (GetField a i) with st show ?thesis
        by (auto simp: frame_def split: sum.splits dest!: frame_get_field)
    next
      case (AssignField a i other) with st show ?thesis
        by (auto simp: frame_def dest!: frame_assign_field)
    next
      case (AssignValueField a i u) with st show ?thesis
        by (auto simp: frame_def dest!: frame_assign_value_field)
    next
      case (Put a y) with st show ?thesis
        by (auto simp: frame_def dest!: frame_put_plain)
    qed
    with free inv' show ?thesis by (simp add: idle_inv_def)
  qed
  from 1 2 3 show ?thesis by blast
qed

theorem C9_registry_empty_when_idle_witness:
  "transactions (snd (NewObject_ctor (Obj 7 []) (empty_world :: int world))) = 0
   \<and> (\<exists>w. run 0 [Begin, End, Begin, End] leaf_root_world = Inr w
        \<and> \<not> m_transactionMutex w \<and> m_openEdits w = []
        \<and> (\<forall>w'. step 0 Snapshot w = Inr w' \<longrightarrow> m_openEdits w' = []))"
proof -
  have h1: "transactions (snd (NewObject_ctor (Obj 7 []) (empty_world :: int world))) = 0"
    by (simp add: NewObject_ctor_def construct_def Let_def empty_world_def)
  obtain w where h2: "run 0 [Begin, End, Begin, End] leaf_root_world = Inr w"
    using run_ex by blast
  have free: "\<not> m_transactionMutex w"
    using h2 by (simp add: leaf_root_world_def eval_defs) auto
  from C9_registry_empty_when_idle [OF h1 h2 [unfolded leaf_root_world_eq]] free
  have "m_openEdits w = []" and "\<forall>w'. step 0 Snapshot w = Inr w' \<longrightarrow> m_openEdits w' = []"
    by blast+
  with h1 h2 free show ?thesis by blast
qed

section \<open>Assignment of a value to a Member\<close>





end
